(* ===== verification/Base.thy ===== *)
theory Base
  imports Main "HOL-Library.AList" "HOL-Library.Multiset" "HOL-Library.Word"
begin

text \<open>
  The prelude of the BuzzWeb server development: the vocabulary that every component shares.

  \<^item> exceptions derived from \<^verbatim>\<open>std::exception\<close> as values, and the application's
    \<^verbatim>\<open>Result\<close> template (include/buzzweb/app/Result.hpp);
  \<^item> \<^verbatim>\<open>std::unordered_map\<close> keyed by strings, as an association list with distinct keys;
    the order of iteration, which C++ leaves open, is a parameter of the code that iterates;
  \<^item> the number formatting of \<^verbatim>\<open>std::ostringstream\<close> (base, width, fill character) that the
    two identifier generators use, with its inverse;
  \<^item> the collections of facts that the component proofs are driven by.

  A \<^verbatim>\<open>std::string\<close> is a sequence of bytes, and so is an Isabelle \<open>string\<close>.
\<close>

section \<open>Fact collections\<close>

named_theorems room_defs \<open>definitions of the room operations\<close>
named_theorems repo_defs \<open>definitions of the in-memory repository operations\<close>
named_theorems service_defs \<open>definitions of the room service helpers\<close>
named_theorems codec_defs \<open>definitions of the protocol codec\<close>
named_theorems net_defs \<open>definitions of the session and registry operations\<close>

section \<open>Exceptions and results\<close>

text \<open>
  The exceptions the program raises or receives that derive from \<^verbatim>\<open>std::exception\<close>;
  \<open>other_exception\<close> stands for every other one (allocation failure, library errors), by its
  \<^verbatim>\<open>what()\<close> text.
\<close>

datatype exn =
    invalid_argument string
  | out_of_range string
  | runtime_error string
  | bad_variant_access
  | other_exception string

text \<open>An expression that may throw has a value in \<open>exn + 'a\<close>; \<open>andThen\<close> is sequencing.\<close>

definition andThen :: "'e + 'a \<Rightarrow> ('a \<Rightarrow> 'e + 'b) \<Rightarrow> 'e + 'b" where
  "andThen m f = (case m of Inl e \<Rightarrow> Inl e | Inr x \<Rightarrow> f x)"

lemma andThen_simps [simp]:
  "andThen (Inl e) f = Inl e"
  "andThen (Inr x) f = f x"
  by (simp_all add: andThen_def)

lemma andThen_Inr_iff: "andThen m f = Inr y \<longleftrightarrow> (\<exists>x. m = Inr x \<and> f x = Inr y)"
  by (cases m) auto

lemma andThen_Inl_iff:
  "andThen m f = Inl e \<longleftrightarrow> m = Inl e \<or> (\<exists>x. m = Inr x \<and> f x = Inl e)"
  by (cases m) auto

text \<open>The class template \<^verbatim>\<open>Result\<close> of include/buzzweb/app/Result.hpp.\<close>

datatype ('a, 'e) Result = Ok 'a | Err 'e

definition IsOk :: "('a, 'e) Result \<Rightarrow> bool" where
  "IsOk r = (case r of Ok _ \<Rightarrow> True | Err _ \<Rightarrow> False)"

definition Value :: "('a, 'e) Result \<Rightarrow> exn + 'a" where
  "Value r = (case r of Ok v \<Rightarrow> Inr v | Err _ \<Rightarrow> Inl bad_variant_access)"

definition Error :: "('a, 'e) Result \<Rightarrow> exn + 'e" where
  "Error r = (case r of Ok _ \<Rightarrow> Inl bad_variant_access | Err e \<Rightarrow> Inr e)"

lemma Result_access_simps [simp]:
  "IsOk (Ok v) = True" "IsOk (Err e) = False"
  "Value (Ok v) = Inr v" "Error (Err e) = Inr e"
  by (simp_all add: IsOk_def Value_def Error_def)

section \<open>Unordered maps keyed by strings\<close>

type_synonym 'v umap = "(string \<times> 'v) list"

definition umap_wf :: "'v umap \<Rightarrow> bool" where
  "umap_wf m = distinct (map fst m)"

text \<open>\<^verbatim>\<open>emplace\<close> keeps an existing entry and says whether it inserted one.\<close>

definition umap_emplace :: "string \<Rightarrow> 'v \<Rightarrow> 'v umap \<Rightarrow> bool \<times> 'v umap" where
  "umap_emplace k v m = (if map_of m k = None then (True, m @ [(k, v)]) else (False, m))"

definition umap_assign :: "string \<Rightarrow> 'v \<Rightarrow> 'v umap \<Rightarrow> 'v umap" where
  "umap_assign k v m = AList.update k v m"

text \<open>\<^verbatim>\<open>erase\<close> returns the number of removed entries.\<close>

definition umap_erase :: "string \<Rightarrow> 'v umap \<Rightarrow> nat \<times> 'v umap" where
  "umap_erase k m = (if map_of m k = None then 0 else 1, AList.delete k m)"

text \<open>
  The order in which a range-based \<^verbatim>\<open>for\<close> visits the keys is not specified: it is some
  permutation of them. A value of type \<open>hash_order\<close> is one such choice.
\<close>

typedef hash_order = "{ord :: string list \<Rightarrow> string list. \<forall>ks. mset (ord ks) = mset ks}"
  morphisms visit Abs_hash_order
  by (rule exI [of _ "\<lambda>ks. ks"]) simp

definition stored_order :: hash_order where
  "stored_order = Abs_hash_order (\<lambda>ks. ks)"

definition reverse_order :: hash_order where
  "reverse_order = Abs_hash_order rev"

lemma visit_stored_order [simp]: "visit stored_order ks = ks"
  by (simp add: stored_order_def Abs_hash_order_inverse)

lemma visit_reverse_order [simp]: "visit reverse_order ks = rev ks"
  by (simp add: reverse_order_def Abs_hash_order_inverse)

lemma mset_visit: "mset (visit ord ks) = mset ks"
  using visit [of ord] by simp

lemma set_visit [simp]: "set (visit ord ks) = set ks"
  by (metis mset_visit set_mset_mset)

lemma distinct_visit [simp]: "distinct (visit ord ks) = distinct ks"
  by (metis mset_visit mset_eq_imp_distinct_iff)

lemma umap_wf_Nil [simp]: "umap_wf []"
  by (simp add: umap_wf_def)

lemma umap_wf_emplace [simp]: "umap_wf m \<Longrightarrow> umap_wf (snd (umap_emplace k v m))"
  by (auto simp: umap_wf_def umap_emplace_def map_of_eq_None_iff)

lemma umap_wf_assign [simp]: "umap_wf m \<Longrightarrow> umap_wf (umap_assign k v m)"
  by (simp add: umap_wf_def umap_assign_def distinct_update)

lemma umap_wf_erase [simp]: "umap_wf m \<Longrightarrow> umap_wf (snd (umap_erase k m))"
  by (simp add: umap_wf_def umap_erase_def distinct_delete)

lemma fst_umap_emplace [simp]: "fst (umap_emplace k v m) \<longleftrightarrow> map_of m k = None"
  by (simp add: umap_emplace_def)

lemma map_of_emplace [simp]:
  "map_of (snd (umap_emplace k v m)) =
     (if map_of m k = None then (map_of m)(k \<mapsto> v) else map_of m)"
  by (auto simp: umap_emplace_def map_add_def fun_eq_iff split: option.splits)

lemma map_of_assign [simp]: "map_of (umap_assign k v m) = (map_of m)(k \<mapsto> v)"
  by (simp add: umap_assign_def update_conv')

lemma fst_umap_erase [simp]: "fst (umap_erase k m) = 0 \<longleftrightarrow> map_of m k = None"
  by (simp add: umap_erase_def)

lemma map_of_erase [simp]: "map_of (snd (umap_erase k m)) = (map_of m)(k := None)"
  by (simp add: umap_erase_def delete_conv')

section \<open>Formatted output of natural numbers\<close>

text \<open>
  \<^verbatim>\<open>stream << n\<close> writes the digits of a number that is not negative in the stream's base
  (ten, or sixteen with lower-case letters after \<^verbatim>\<open>std::hex\<close>); \<^verbatim>\<open>std::setw(w)\<close> and
  \<^verbatim>\<open>std::setfill(c)\<close> put copies of \<open>c\<close> in front when there are fewer than \<open>w\<close>
  characters, and never cut any off.
\<close>

definition digit_char :: "nat \<Rightarrow> char" where
  "digit_char d = ''0123456789abcdef'' ! d"

fun show_base :: "nat \<Rightarrow> nat \<Rightarrow> string" where
  "show_base b n =
     (if b < 2 \<or> n < b then [digit_char n] else show_base b (n div b) @ [digit_char (n mod b)])"

declare show_base.simps [simp del]

definition setw_fill :: "nat \<Rightarrow> char \<Rightarrow> string \<Rightarrow> string" where
  "setw_fill w c s = replicate (w - length s) c @ s"

text \<open>Reading the digits back.\<close>

definition digit_val :: "char \<Rightarrow> nat" where
  "digit_val c = (let k = of_char c in if k < (58::nat) then k - 48 else k - 87)"

definition read_base :: "nat \<Rightarrow> string \<Rightarrow> nat" where
  "read_base b s = foldl (\<lambda>a c. a * b + digit_val c) 0 s"

lemma digit_char_cases: "(d::nat) < 16 \<Longrightarrow> d \<in> {0,1,2,3,4,5,6,7,8,9,10,11,12,13,14,15}"
  by simp presburger

lemma digit_val_char: "d < 16 \<Longrightarrow> digit_val (digit_char d) = d"
  by (drule digit_char_cases)
    (auto simp: digit_char_def digit_val_def Let_def numeral_eq_Suc)

lemma digit_char_in: "d < b \<Longrightarrow> b \<le> 16 \<Longrightarrow> digit_char d \<in> set (take b ''0123456789abcdef'')"
  by (auto simp: digit_char_def in_set_conv_nth intro!: exI [of _ d])

lemma read_base_snoc [simp]: "read_base b (s @ [c]) = read_base b s * b + digit_val c"
  by (simp add: read_base_def)

lemma read_show_base: "2 \<le> b \<Longrightarrow> b \<le> 16 \<Longrightarrow> read_base b (show_base b n) = n"
proof (induction b n rule: show_base.induct)
  case (1 b n)
  show ?case
  proof (cases "n < b")
    case True
    with "1.prems" show ?thesis
      by (subst show_base.simps) (simp add: read_base_def digit_val_char)
  next
    case False
    with 1 have IH: "read_base b (show_base b (n div b)) = n div b" by simp
    have "n mod b < 16"
      using "1.prems" by (metis less_le_trans mod_less_divisor not_numeral_le_zero neq0_conv)
    with False "1.prems" IH show ?thesis
      by (subst show_base.simps) (simp add: digit_val_char)
  qed
qed

lemma read_base_fill [simp]: "read_base b (replicate k CHR ''0'' @ s) = read_base b s"
  by (induction k) (simp_all add: read_base_def digit_val_def)

lemma read_setw_fill:
  "2 \<le> b \<Longrightarrow> b \<le> 16 \<Longrightarrow> read_base b (setw_fill w CHR ''0'' (show_base b n)) = n"
  by (simp add: setw_fill_def read_show_base)

lemma length_show_base: "2 \<le> b \<Longrightarrow> 0 < w \<Longrightarrow> n < b ^ w \<Longrightarrow> length (show_base b n) \<le> w"
proof (induction b n arbitrary: w rule: show_base.induct)
  case (1 b n)
  show ?case
  proof (cases "n < b")
    case True
    with "1.prems" show ?thesis by (subst show_base.simps) simp
  next
    case False
    with "1.prems" obtain v where w: "w = Suc v" and v: "0 < v"
      by (metis One_nat_def gr0_conv_Suc neq0_conv power_one_right)
    with "1.prems" have "n div b < b ^ v"
      by (simp add: less_mult_imp_div_less mult.commute)
    with 1 False v have "length (show_base b (n div b)) \<le> v" by simp
    with False "1.prems" w show ?thesis by (subst show_base.simps) simp
  qed
qed

lemma set_show_base:
  "2 \<le> b \<Longrightarrow> b \<le> 16 \<Longrightarrow> set (show_base b n) \<subseteq> set (take b ''0123456789abcdef'')"
proof (induction b n rule: show_base.induct)
  case (1 b n)
  have "n mod b < b" using "1.prems" by simp
  with 1 digit_char_in [of n b] digit_char_in [of "n mod b" b] show ?case
    by (subst show_base.simps) auto
qed

lemma length_setw_fill: "length s \<le> w \<Longrightarrow> length (setw_fill w c s) = w"
  by (simp add: setw_fill_def)

lemma set_setw_fill: "set (setw_fill w c s) \<subseteq> insert c (set s)"
  by (auto simp: setw_fill_def)

end
