(* ===== verification/Rooms.thy ===== *)
theory Rooms
  imports Base
begin

text \<open>
  The domain objects: \<^verbatim>\<open>Participant\<close> (src/domain/Participant.cpp) and \<^verbatim>\<open>Room\<close>
  (src/domain/Room.cpp). A getter of the source is the record field of that name. The
  well-formedness of a room says that no two of its participants have the same id; every
  operation keeps it.
\<close>

section \<open>Participants\<close>

type_synonym ParticipantId = string
type_synonym RoomCode = string
type_synonym RoomSecret = string

record Participant =
  GetId :: ParticipantId
  GetName :: string

definition Participant_new :: "ParticipantId \<Rightarrow> string \<Rightarrow> Participant" where
  "Participant_new pid name = \<lparr>GetId = pid, GetName = name\<rparr>"

definition SetName :: "string \<Rightarrow> Participant \<Rightarrow> Participant" where
  "SetName name p = p\<lparr>GetName := name\<rparr>"

lemma Participant_new_sel [simp]:
  "GetId (Participant_new pid name) = pid" "GetName (Participant_new pid name) = name"
  by (simp_all add: Participant_new_def)

lemma SetName_sel [simp]: "GetId (SetName name p) = GetId p" "GetName (SetName name p) = name"
  by (simp_all add: SetName_def)

section \<open>Rooms\<close>

datatype JoinRoomResult = Joined | InvalidSecret | SecretNotProvided | AlreadyInRoom
datatype LeaveRoomResult = Left | NotInRoom

record Room =
  GetCode :: RoomCode
  room_secret :: "RoomSecret option"
  GetParticipants :: "Participant list"

definition Room_new :: "RoomCode \<Rightarrow> RoomSecret option \<Rightarrow> Room" where
  "Room_new code secret = \<lparr>GetCode = code, room_secret = secret, GetParticipants = []\<rparr>"

definition IsSecretProtected :: "Room \<Rightarrow> bool" where
  "IsSecretProtected room = (room_secret room \<noteq> None)"

definition IsEmpty :: "Room \<Rightarrow> bool" where
  "IsEmpty room = (GetParticipants room = [])"

definition HasParticipant :: "ParticipantId \<Rightarrow> Room \<Rightarrow> bool" where
  "HasParticipant pid room = list_ex (\<lambda>p. GetId p = pid) (GetParticipants room)"

definition TryAddParticipant ::
  "Participant \<Rightarrow> RoomSecret option \<Rightarrow> Room \<Rightarrow> JoinRoomResult \<times> Room"
where
  "TryAddParticipant p secret room =
     (if HasParticipant (GetId p) room then (AlreadyInRoom, room)
      else case room_secret room of
        None \<Rightarrow> (Joined, room\<lparr>GetParticipants := GetParticipants room @ [p]\<rparr>)
      | Some own \<Rightarrow>
          (case secret of
            None \<Rightarrow> (SecretNotProvided, room)
          | Some given \<Rightarrow>
              if own \<noteq> given then (InvalidSecret, room)
              else (Joined, room\<lparr>GetParticipants := GetParticipants room @ [p]\<rparr>)))"

definition RemoveParticipant :: "ParticipantId \<Rightarrow> Room \<Rightarrow> LeaveRoomResult \<times> Room" where
  "RemoveParticipant pid room =
     (if \<not> HasParticipant pid room then (NotInRoom, room)
      else (Left,
        room\<lparr>GetParticipants := filter (\<lambda>p. \<not> GetId p = pid) (GetParticipants room)\<rparr>))"

text \<open>
  The two overloads of \<^verbatim>\<open>FindParticipant\<close>: the one on a mutable room returns a reference, that
  is the position of the participant in the room's vector; the other one returns a copy. Both
  throw when there is none.
\<close>

fun find_index :: "('a \<Rightarrow> bool) \<Rightarrow> 'a list \<Rightarrow> nat" where
  "find_index P [] = 0"
| "find_index P (x # xs) = (if P x then 0 else Suc (find_index P xs))"

definition FindParticipant_ref :: "ParticipantId \<Rightarrow> Room \<Rightarrow> exn + nat" where
  "FindParticipant_ref pid room =
     (let i = find_index (\<lambda>p. GetId p = pid) (GetParticipants room)
      in if i = length (GetParticipants room) then Inl (out_of_range ''participant_not_found'')
         else Inr i)"

definition FindParticipant :: "ParticipantId \<Rightarrow> Room \<Rightarrow> exn + Participant" where
  "FindParticipant pid room =
     (case find (\<lambda>p. GetId p = pid) (GetParticipants room) of
        None \<Rightarrow> Inl (out_of_range ''participant_not_found'')
      | Some p \<Rightarrow> Inr p)"

lemmas room_ops [room_defs] =
  Room_new_def IsEmpty_def TryAddParticipant_def RemoveParticipant_def

subsection \<open>Membership and well-formedness\<close>

definition room_wf :: "Room \<Rightarrow> bool" where
  "room_wf room = distinct (map GetId (GetParticipants room))"

definition member_ids :: "Room \<Rightarrow> ParticipantId set" where
  "member_ids room = GetId ` set (GetParticipants room)"

text \<open>Does the room let someone in who shows this secret?\<close>

definition admits :: "RoomSecret option \<Rightarrow> Room \<Rightarrow> bool" where
  "admits secret room \<longleftrightarrow> room_secret room = None \<or> room_secret room = secret"

lemma HasParticipant_iff [simp]: "HasParticipant pid room \<longleftrightarrow> pid \<in> member_ids room"
  by (auto simp: HasParticipant_def member_ids_def list_ex_iff)

lemma IsEmpty_iff_member_ids: "IsEmpty room \<longleftrightarrow> member_ids room = {}"
  by (simp add: IsEmpty_def member_ids_def)

lemma member_ids_Room_new [simp]: "member_ids (Room_new code secret) = {}"
  by (simp add: member_ids_def Room_new_def)

lemma Room_new_sel [simp]:
  "GetCode (Room_new code secret) = code" "room_secret (Room_new code secret) = secret"
  "GetParticipants (Room_new code secret) = []"
  by (simp_all add: Room_new_def)

lemma room_wf_Room_new [simp]: "room_wf (Room_new code secret)"
  by (simp add: room_wf_def)

lemma TryAdd_result:
  "fst (TryAddParticipant p secret room) =
     (if GetId p \<in> member_ids room then AlreadyInRoom
      else if admits secret room then Joined
      else if secret = None then SecretNotProvided else InvalidSecret)"
  by (auto simp: TryAddParticipant_def admits_def split: option.splits)

lemma TryAdd_Joined_iff [simp]:
  "fst (TryAddParticipant p secret room) = Joined \<longleftrightarrow>
     GetId p \<notin> member_ids room \<and> admits secret room"
  by (auto simp: TryAdd_result)

lemma TryAdd_room:
  "snd (TryAddParticipant p secret room) =
     (if GetId p \<notin> member_ids room \<and> admits secret room
      then room\<lparr>GetParticipants := GetParticipants room @ [p]\<rparr> else room)"
  by (auto simp: TryAddParticipant_def admits_def split: option.splits)

lemma Remove_result:
  "fst (RemoveParticipant pid room) = (if pid \<in> member_ids room then Left else NotInRoom)"
  by (simp add: RemoveParticipant_def)

lemma Remove_room:
  "snd (RemoveParticipant pid room) =
     room\<lparr>GetParticipants := filter (\<lambda>p. GetId p \<noteq> pid) (GetParticipants room)\<rparr>"
proof (cases "pid \<in> member_ids room")
  case False
  then have "filter (\<lambda>p. GetId p \<noteq> pid) (GetParticipants room) = GetParticipants room"
    by (auto simp: member_ids_def filter_id_conv)
  with False show ?thesis by (simp add: RemoveParticipant_def)
qed (simp add: RemoveParticipant_def)

lemma TryAdd_keeps [simp]:
  "GetCode (snd (TryAddParticipant p secret room)) = GetCode room"
  "room_secret (snd (TryAddParticipant p secret room)) = room_secret room"
  by (simp_all add: TryAdd_room)

lemma Remove_keeps [simp]:
  "GetCode (snd (RemoveParticipant pid room)) = GetCode room"
  "room_secret (snd (RemoveParticipant pid room)) = room_secret room"
  by (simp_all add: Remove_room)

lemma member_ids_TryAdd:
  "member_ids (snd (TryAddParticipant p secret room)) =
     (if admits secret room then insert (GetId p) (member_ids room) else member_ids room)"
  by (auto simp: TryAdd_room member_ids_def)

lemma member_ids_Remove: "member_ids (snd (RemoveParticipant pid room)) = member_ids room - {pid}"
  by (auto simp: Remove_room member_ids_def)

lemma room_wf_TryAdd [simp]: "room_wf room \<Longrightarrow> room_wf (snd (TryAddParticipant p secret room))"
  by (simp add: TryAdd_room room_wf_def member_ids_def)

lemma room_wf_Remove [simp]: "room_wf room \<Longrightarrow> room_wf (snd (RemoveParticipant pid room))"
  by (simp add: Remove_room room_wf_def distinct_map_filter)

lemma filter_out_absent: "k \<notin> f ` set xs \<Longrightarrow> filter (\<lambda>x. f x \<noteq> k) xs = xs"
  by (auto simp: filter_id_conv)

lemma find_index_le [simp]: "find_index P xs \<le> length xs"
  by (induction xs) auto

lemma find_index_hit: "find_index P xs < length xs \<Longrightarrow> P (xs ! find_index P xs)"
  by (induction xs) auto

lemma find_index_find:
  "find P xs = (if find_index P xs = length xs then None else Some (xs ! find_index P xs))"
  by (induction xs) auto

lemma find_index_miss_iff: "find_index P xs = length xs \<longleftrightarrow> (\<forall>x \<in> set xs. \<not> P x)"
  by (induction xs) auto

section \<open>Properties of the domain objects\<close>

text \<open>
  C36. Joining and leaving a room: a participant enters exactly when it is not already a member
  and the room is open or the given secret equals the room's; it is then appended to the list,
  and leaving gives back the room as it was before. In every other case the room is unchanged
  and the result says which check failed, the membership check first.
\<close>

theorem join_then_leave:
  "TryAddParticipant p secret room = (res, room') \<Longrightarrow>
     (if GetId p \<in> member_ids room then res = AlreadyInRoom \<and> room' = room
      else if room_secret room = None \<or> room_secret room = secret
      then res = Joined
        \<and> GetParticipants room' = GetParticipants room @ [p]
        \<and> RemoveParticipant (GetId p) room' = (Left, room)
      else room' = room \<and> res = (if secret = None then SecretNotProvided else InvalidSecret))"
proof -
  assume run: "TryAddParticipant p secret room = (res, room')"
  have res: "res = fst (TryAddParticipant p secret room)"
    and room': "room' = snd (TryAddParticipant p secret room)" by (simp_all add: run)
  have "RemoveParticipant (GetId p) (room\<lparr>GetParticipants := GetParticipants room @ [p]\<rparr>) = (Left, room)"
    if "GetId p \<notin> member_ids room"
    using that by (simp add: RemoveParticipant_def member_ids_def filter_out_absent)
  then show ?thesis
    unfolding res room' by (auto simp: TryAdd_result TryAdd_room admits_def)
qed

definition demo_room :: Room where
  "demo_room = \<lparr>GetCode = ''000042'', room_secret = Some ''s3cret'',
     GetParticipants = [\<lparr>GetId = ''p_1'', GetName = ''Ada''\<rparr>]\<rparr>"

theorem join_then_leave_witness:
  "\<exists>room'. TryAddParticipant \<lparr>GetId = ''p_2'', GetName = ''Bob''\<rparr> (Some ''s3cret'') demo_room
       = (Joined, room')
     \<and> RemoveParticipant ''p_2'' room' = (Left, demo_room)"
proof -
  obtain res room' where run:
    "TryAddParticipant \<lparr>GetId = ''p_2'', GetName = ''Bob''\<rparr> (Some ''s3cret'') demo_room = (res, room')"
    by fastforce
  show ?thesis
    using join_then_leave [OF run] run by (simp add: demo_room_def member_ids_def)
qed

text \<open>
  No operation of a room lets two participants share an id, and none touches the room's code
  or its secret; a new room has no participant at all.
\<close>

theorem room_operations_keep_invariant:
  assumes "room_wf room"
  shows "room_wf (snd (TryAddParticipant p secret room))
    \<and> room_wf (snd (RemoveParticipant pid room))
    \<and> room_wf (Room_new code s)
    \<and> GetCode (snd (TryAddParticipant p secret room)) = GetCode room
    \<and> GetCode (snd (RemoveParticipant pid room)) = GetCode room
    \<and> room_secret (snd (TryAddParticipant p secret room)) = room_secret room
    \<and> room_secret (snd (RemoveParticipant pid room)) = room_secret room
    \<and> member_ids (snd (RemoveParticipant pid room)) = member_ids room - {pid}"
  using assms by (simp add: member_ids_Remove)

theorem room_operations_keep_invariant_witness:
  "room_wf (snd (TryAddParticipant \<lparr>GetId = ''p_2'', GetName = ''Bob''\<rparr> (Some ''s3cret'') demo_room))
     \<and> member_ids (snd (RemoveParticipant ''p_1'' demo_room)) = {}"
proof -
  have wf: "room_wf demo_room" by (simp add: room_wf_def demo_room_def)
  have "member_ids demo_room = {''p_1''}" by (simp add: member_ids_def demo_room_def)
  then show ?thesis
    using room_operations_keep_invariant [OF wf] by simp
qed

text \<open>
  Looking a participant up: both overloads throw \<^verbatim>\<open>out_of_range("participant_not_found")\<close>
  exactly when nobody in the room has the id; otherwise the copy returned is the element at the
  position the reference denotes, and it has the id asked for.
\<close>

theorem FindParticipant_correct:
  "(if HasParticipant pid room
    then \<exists>i < length (GetParticipants room).
        FindParticipant_ref pid room = Inr i
        \<and> FindParticipant pid room = Inr (GetParticipants room ! i)
        \<and> GetId (GetParticipants room ! i) = pid
    else FindParticipant_ref pid room = Inl (out_of_range ''participant_not_found'')
        \<and> FindParticipant pid room = Inl (out_of_range ''participant_not_found''))"
proof -
  let ?P = "\<lambda>p. GetId p = pid" and ?ps = "GetParticipants room"
  have iff: "HasParticipant pid room \<longleftrightarrow> find_index ?P ?ps \<noteq> length ?ps"
    by (auto simp: member_ids_def find_index_miss_iff)
  have "find_index ?P ?ps < length ?ps" if "find_index ?P ?ps \<noteq> length ?ps"
    using that find_index_le [of ?P ?ps] by linarith
  with iff show ?thesis
    using find_index_hit [of ?P ?ps]
    by (auto simp: FindParticipant_ref_def FindParticipant_def find_index_find Let_def
      simp del: HasParticipant_iff)
qed

end
