(* ===== verification/Repository.thy ===== *)
theory Repository
  imports Rooms
begin

text \<open>
  The storage interface \<^verbatim>\<open>RoomRepository\<close> (include/buzzweb/domain/RoomRepository.hpp) and its
  implementation \<^verbatim>\<open>InMemoryRoomRepository\<close> (src/domain/InMemoryRoomRepository.cpp).

  The abstract class is a record of operations over a state of any type \<open>'r\<close>, as a virtual
  method table is; each may throw. An updater passed to \<^verbatim>\<open>Update\<close> is a lambda that captures
  local variables of its caller by reference: their values have type \<open>'c\<close> and are passed
  through. The locale \<open>room_repository\<close> is the contract of the interface, over the finite map
  from codes to rooms that a repository holds; the in-memory class is an interpretation of it.
\<close>

section \<open>The interface\<close>

datatype AddRoomResult = Added | AlreadyExists
datatype UpdateRoomResult = Updated | UpdateNotFound | Aborted
datatype RemoveRoomResult = RoomRemoved | RemoveNotFound
datatype RemoveEmptyRoomResult = EmptyRemoved | NotEmpty | EmptyNotFound
datatype TransactionResult = Commit | Abort

type_synonym 'c updater = "Room \<Rightarrow> 'c \<Rightarrow> TransactionResult \<times> Room \<times> 'c"

record ('r, 'c) RoomRepository =
  Add :: "Room \<Rightarrow> 'r \<Rightarrow> (exn + AddRoomResult) \<times> 'r"
  FindByCode :: "RoomCode \<Rightarrow> 'r \<Rightarrow> exn + Room option"
  Update :: "RoomCode \<Rightarrow> 'c updater \<Rightarrow> 'c \<Rightarrow> 'r \<Rightarrow> (exn + UpdateRoomResult) \<times> 'c \<times> 'r"
  Remove :: "RoomCode \<Rightarrow> 'r \<Rightarrow> (exn + RemoveRoomResult) \<times> 'r"
  RemoveIfEmpty :: "RoomCode \<Rightarrow> 'r \<Rightarrow> (exn + RemoveEmptyRoomResult) \<times> 'r"
  Exists :: "RoomCode \<Rightarrow> 'r \<Rightarrow> exn + bool"
  ParticipantInRoom :: "ParticipantId \<Rightarrow> RoomCode \<Rightarrow> 'r \<Rightarrow> exn + bool"
  GetRoomCodes :: "'r \<Rightarrow> exn + RoomCode list"

section \<open>The in-memory implementation\<close>

text \<open>
  Every public method holds the one mutex for the whole of its body, so a method is one atomic
  step on the map.
\<close>

record InMemoryRoomRepository =
  rooms :: "Room umap"

definition InMemory_new :: InMemoryRoomRepository where
  "InMemory_new = \<lparr>rooms = []\<rparr>"

definition InMemory_Add ::
  "Room \<Rightarrow> InMemoryRoomRepository \<Rightarrow> (exn + AddRoomResult) \<times> InMemoryRoomRepository"
where
  "InMemory_Add room r =
     (let (inserted, m) = umap_emplace (GetCode room) room (rooms r)
      in if \<not> inserted then (Inr AlreadyExists, r\<lparr>rooms := m\<rparr>)
         else (Inr Added, r\<lparr>rooms := m\<rparr>))"

definition InMemory_FindByCode :: "RoomCode \<Rightarrow> InMemoryRoomRepository \<Rightarrow> exn + Room option" where
  "InMemory_FindByCode code r =
     (case map_of (rooms r) code of None \<Rightarrow> Inr None | Some room \<Rightarrow> Inr (Some room))"

definition InMemory_Update ::
  "RoomCode \<Rightarrow> 'c updater \<Rightarrow> 'c \<Rightarrow> InMemoryRoomRepository
     \<Rightarrow> (exn + UpdateRoomResult) \<times> 'c \<times> InMemoryRoomRepository"
where
  "InMemory_Update code updater c r =
     (case map_of (rooms r) code of
        None \<Rightarrow> (Inr UpdateNotFound, c, r)
      | Some room \<Rightarrow>
          (let (result, updated_room, c') = updater room c
           in if result = Abort then (Inr Aborted, c', r)
              else (Inr Updated, c', r\<lparr>rooms := umap_assign code updated_room (rooms r)\<rparr>)))"

definition InMemory_Remove ::
  "RoomCode \<Rightarrow> InMemoryRoomRepository \<Rightarrow> (exn + RemoveRoomResult) \<times> InMemoryRoomRepository"
where
  "InMemory_Remove code r =
     (let (n, m) = umap_erase code (rooms r)
      in if n = 0 then (Inr RemoveNotFound, r\<lparr>rooms := m\<rparr>) else (Inr RoomRemoved, r\<lparr>rooms := m\<rparr>))"

definition InMemory_RemoveIfEmpty ::
  "RoomCode \<Rightarrow> InMemoryRoomRepository \<Rightarrow> (exn + RemoveEmptyRoomResult) \<times> InMemoryRoomRepository"
where
  "InMemory_RemoveIfEmpty code r =
     (case map_of (rooms r) code of
        None \<Rightarrow> (Inr EmptyNotFound, r)
      | Some room \<Rightarrow>
          if IsEmpty room then (Inr EmptyRemoved, r\<lparr>rooms := snd (umap_erase code (rooms r))\<rparr>)
          else (Inr NotEmpty, r))"

definition InMemory_Exists :: "RoomCode \<Rightarrow> InMemoryRoomRepository \<Rightarrow> exn + bool" where
  "InMemory_Exists code r = Inr (map_of (rooms r) code \<noteq> None)"

definition InMemory_ParticipantInRoom ::
  "ParticipantId \<Rightarrow> RoomCode \<Rightarrow> InMemoryRoomRepository \<Rightarrow> exn + bool"
where
  "InMemory_ParticipantInRoom pid code r =
     Inr (case map_of (rooms r) code of None \<Rightarrow> False | Some room \<Rightarrow> HasParticipant pid room)"

definition InMemory_GetRoomCodes ::
  "hash_order \<Rightarrow> InMemoryRoomRepository \<Rightarrow> exn + RoomCode list"
where
  "InMemory_GetRoomCodes ord r = Inr (visit ord (map fst (rooms r)))"

lemmas InMemory_defs [repo_defs] =
  InMemory_new_def InMemory_Add_def InMemory_FindByCode_def InMemory_Update_def
  InMemory_Remove_def InMemory_RemoveIfEmpty_def InMemory_Exists_def
  InMemory_ParticipantInRoom_def InMemory_GetRoomCodes_def

text \<open>The overrides of the class, with the iteration order of its hash map as a parameter.\<close>

definition InMemory_ops ::
  "hash_order \<Rightarrow> (InMemoryRoomRepository, 'c) RoomRepository"
where
  "InMemory_ops ord =
     \<lparr>Add = InMemory_Add, FindByCode = InMemory_FindByCode, Update = InMemory_Update,
      Remove = InMemory_Remove, RemoveIfEmpty = InMemory_RemoveIfEmpty,
      Exists = InMemory_Exists, ParticipantInRoom = InMemory_ParticipantInRoom,
      GetRoomCodes = InMemory_GetRoomCodes ord\<rparr>"

lemma InMemory_ops_sel [simp]:
  "Add (InMemory_ops ord) = InMemory_Add"
  "FindByCode (InMemory_ops ord) = InMemory_FindByCode"
  "Update (InMemory_ops ord) = InMemory_Update"
  "Remove (InMemory_ops ord) = InMemory_Remove"
  "RemoveIfEmpty (InMemory_ops ord) = InMemory_RemoveIfEmpty"
  "Exists (InMemory_ops ord) = InMemory_Exists"
  "ParticipantInRoom (InMemory_ops ord) = InMemory_ParticipantInRoom"
  "GetRoomCodes (InMemory_ops ord) = InMemory_GetRoomCodes ord"
  by (simp_all add: InMemory_ops_def)

section \<open>The contract of the interface\<close>

type_synonym store = "RoomCode \<Rightarrow> Room option"

text \<open>The transaction an updater describes, on the stored map.\<close>

definition transact :: "RoomCode \<Rightarrow> 'c updater \<Rightarrow> 'c \<Rightarrow> store \<Rightarrow> UpdateRoomResult \<times> 'c \<times> store" where
  "transact code updater c m =
     (case m code of
        None \<Rightarrow> (UpdateNotFound, c, m)
      | Some room \<Rightarrow>
          (case updater room c of
             (Abort, _, c') \<Rightarrow> (Aborted, c', m)
           | (Commit, room', c') \<Rightarrow> (Updated, c', m(code \<mapsto> room'))))"

definition in_store :: "ParticipantId \<Rightarrow> RoomCode \<Rightarrow> store \<Rightarrow> bool" where
  "in_store pid code m \<longleftrightarrow> (case m code of None \<Rightarrow> False | Some room \<Rightarrow> pid \<in> member_ids room)"

locale room_repository =
  fixes ops :: "('r, 'c) RoomRepository"
    and lookup :: "'r \<Rightarrow> store"
    and invar :: "'r \<Rightarrow> bool"
  assumes add_result: "invar r \<Longrightarrow>
      fst (Add ops room r) = Inr (if lookup r (GetCode room) = None then Added else AlreadyExists)"
    and add_lookup: "invar r \<Longrightarrow>
      lookup (snd (Add ops room r)) =
        (if lookup r (GetCode room) = None then (lookup r)(GetCode room \<mapsto> room) else lookup r)"
    and add_invar: "invar r \<Longrightarrow> invar (snd (Add ops room r))"
    and find_result: "invar r \<Longrightarrow> FindByCode ops code r = Inr (lookup r code)"
    and update_result: "invar r \<Longrightarrow>
      fst (Update ops code f c r) = Inr (fst (transact code f c (lookup r)))"
    and update_captures: "invar r \<Longrightarrow>
      fst (snd (Update ops code f c r)) = fst (snd (transact code f c (lookup r)))"
    and update_lookup: "invar r \<Longrightarrow>
      lookup (snd (snd (Update ops code f c r))) = snd (snd (transact code f c (lookup r)))"
    and update_invar: "invar r \<Longrightarrow> invar (snd (snd (Update ops code f c r)))"
    and remove_result: "invar r \<Longrightarrow>
      fst (Remove ops code r) = Inr (if lookup r code = None then RemoveNotFound else RoomRemoved)"
    and remove_lookup: "invar r \<Longrightarrow> lookup (snd (Remove ops code r)) = (lookup r)(code := None)"
    and remove_invar: "invar r \<Longrightarrow> invar (snd (Remove ops code r))"
    and remove_empty_result: "invar r \<Longrightarrow>
      fst (RemoveIfEmpty ops code r) =
        Inr (case lookup r code of None \<Rightarrow> EmptyNotFound
             | Some room \<Rightarrow> if IsEmpty room then EmptyRemoved else NotEmpty)"
    and remove_empty_lookup: "invar r \<Longrightarrow>
      lookup (snd (RemoveIfEmpty ops code r)) =
        (case lookup r code of None \<Rightarrow> lookup r
         | Some room \<Rightarrow> if IsEmpty room then (lookup r)(code := None) else lookup r)"
    and remove_empty_invar: "invar r \<Longrightarrow> invar (snd (RemoveIfEmpty ops code r))"
    and exists_result: "invar r \<Longrightarrow> Exists ops code r = Inr (lookup r code \<noteq> None)"
    and member_result: "invar r \<Longrightarrow>
      ParticipantInRoom ops pid code r = Inr (in_store pid code (lookup r))"
    and codes_result: "invar r \<Longrightarrow>
      \<exists>codes. GetRoomCodes ops r = Inr codes \<and> distinct codes \<and> set codes = dom (lookup r)"
begin

lemmas results =
  add_result find_result update_result update_captures remove_result remove_empty_result
  exists_result member_result

lemmas effects = add_lookup update_lookup remove_lookup remove_empty_lookup

lemmas keeps_invar = add_invar update_invar remove_invar remove_empty_invar

text \<open>What a client may conclude from a sequence of calls, whatever the implementation.\<close>

lemma add_then_find:
  assumes "invar r" and "lookup r (GetCode room) = None"
  shows "FindByCode ops (GetCode room) (snd (Add ops room r)) = Inr (Some room)"
  using assms by (simp add: find_result effects keeps_invar)

lemma remove_then_find:
  "invar r \<Longrightarrow> FindByCode ops code (snd (Remove ops code r)) = Inr None"
  by (simp add: find_result effects keeps_invar)

lemma update_frame:
  assumes "invar r" and "code' \<noteq> code"
  shows "FindByCode ops code' (snd (snd (Update ops code f c r))) = FindByCode ops code' r"
  using assms
  by (auto simp: find_result effects keeps_invar transact_def split: option.splits prod.splits
      TransactionResult.splits)

lemma abort_rolls_back:
  assumes "invar r" and "fst (Update ops code f c r) \<noteq> Inr Updated"
  shows "lookup (snd (snd (Update ops code f c r))) = lookup r"
  using assms
  by (auto simp: update_result effects transact_def split: option.splits prod.splits
      TransactionResult.splits)

lemma update_committed:
  assumes "invar r" and "fst (Update ops code f c r) = Inr Updated"
  obtains room room' c' where "lookup r code = Some room" and "f room c = (Commit, room', c')"
    and "lookup (snd (snd (Update ops code f c r))) = (lookup r)(code \<mapsto> room')"
  using assms
  by (auto simp: update_result effects transact_def split: option.splits prod.splits
      TransactionResult.splits)

end

text \<open>
  The calls of the repository, and what the contract says about them on the stored map. The order in
  which the codes are listed is that of the hash map, so only their set is compared.
\<close>

datatype 'c RepoCall =
    CallAdd Room
  | CallUpdate RoomCode "'c updater" 'c
  | CallRemove RoomCode
  | CallRemoveIfEmpty RoomCode
  | CallFindByCode RoomCode
  | CallExists RoomCode
  | CallParticipantInRoom ParticipantId RoomCode
  | CallGetRoomCodes

datatype 'c RepoReply =
    AddReply "exn + AddRoomResult"
  | UpdateReply "exn + UpdateRoomResult" 'c
  | RemoveReply "exn + RemoveRoomResult"
  | RemoveEmptyReply "exn + RemoveEmptyRoomResult"
  | FindReply "exn + Room option"
  | BoolReply "exn + bool"
  | CodesReply "exn + RoomCode set"

fun repo_call :: "('r, 'c) RoomRepository \<Rightarrow> 'c RepoCall \<Rightarrow> 'r \<Rightarrow> 'c RepoReply \<times> 'r" where
  "repo_call ops (CallAdd room) r = apfst AddReply (Add ops room r)"
| "repo_call ops (CallUpdate code f c) r =
     (let (res, c', r') = Update ops code f c r in (UpdateReply res c', r'))"
| "repo_call ops (CallRemove code) r = apfst RemoveReply (Remove ops code r)"
| "repo_call ops (CallRemoveIfEmpty code) r = apfst RemoveEmptyReply (RemoveIfEmpty ops code r)"
| "repo_call ops (CallFindByCode code) r = (FindReply (FindByCode ops code r), r)"
| "repo_call ops (CallExists code) r = (BoolReply (Exists ops code r), r)"
| "repo_call ops (CallParticipantInRoom pid code) r = (BoolReply (ParticipantInRoom ops pid code r), r)"
| "repo_call ops CallGetRoomCodes r = (CodesReply (map_sum id set (GetRoomCodes ops r)), r)"

fun store_call :: "'c RepoCall \<Rightarrow> store \<Rightarrow> 'c RepoReply \<times> store" where
  "store_call (CallAdd room) m =
     (if m (GetCode room) = None then (AddReply (Inr Added), m(GetCode room \<mapsto> room))
      else (AddReply (Inr AlreadyExists), m))"
| "store_call (CallUpdate code f c) m =
     (let (res, c', m') = transact code f c m in (UpdateReply (Inr res) c', m'))"
| "store_call (CallRemove code) m =
     (RemoveReply (Inr (if m code = None then RemoveNotFound else RoomRemoved)), m(code := None))"
| "store_call (CallRemoveIfEmpty code) m =
     (case m code of
        None \<Rightarrow> (RemoveEmptyReply (Inr EmptyNotFound), m)
      | Some room \<Rightarrow>
          if IsEmpty room then (RemoveEmptyReply (Inr EmptyRemoved), m(code := None))
          else (RemoveEmptyReply (Inr NotEmpty), m))"
| "store_call (CallFindByCode code) m = (FindReply (Inr (m code)), m)"
| "store_call (CallExists code) m = (BoolReply (Inr (m code \<noteq> None)), m)"
| "store_call (CallParticipantInRoom pid code) m = (BoolReply (Inr (in_store pid code m)), m)"
| "store_call CallGetRoomCodes m = (CodesReply (Inr (dom m)), m)"

fun run_calls :: "('a \<Rightarrow> 's \<Rightarrow> 'b \<times> 's) \<Rightarrow> 'a list \<Rightarrow> 's \<Rightarrow> 'b list \<times> 's" where
  "run_calls f [] s = ([], s)"
| "run_calls f (x # xs) s =
     (let (y, s') = f x s; (ys, s'') = run_calls f xs s' in (y # ys, s''))"

context room_repository begin

lemma call_refines:
  assumes "invar r"
  shows "fst (repo_call ops call r) = fst (store_call call (lookup r))
    \<and> lookup (snd (repo_call ops call r)) = snd (store_call call (lookup r))
    \<and> invar (snd (repo_call ops call r))"
proof (cases call)
  case CallGetRoomCodes
  then show ?thesis using codes_result [OF assms] assms by auto
qed (use assms in \<open>auto simp: case_prod_beta Let_def results effects keeps_invar split: option.splits\<close>)

lemma calls_refine:
  "invar r \<Longrightarrow>
     fst (run_calls (repo_call ops) calls r) = fst (run_calls store_call calls (lookup r))
     \<and> lookup (snd (run_calls (repo_call ops) calls r)) = snd (run_calls store_call calls (lookup r))
     \<and> invar (snd (run_calls (repo_call ops) calls r))"
proof (induction calls arbitrary: r)
  case (Cons call calls)
  note one = call_refines [OF Cons.prems, of call]
  with Cons.IH [of "snd (repo_call ops call r)"] show ?case
    by (simp add: case_prod_beta Let_def)
qed simp

end

section \<open>The in-memory class meets the contract\<close>

definition InMemory_invar :: "InMemoryRoomRepository \<Rightarrow> bool" where
  "InMemory_invar r = umap_wf (rooms r)"

definition InMemory_lookup :: "InMemoryRoomRepository \<Rightarrow> store" where
  "InMemory_lookup r = map_of (rooms r)"

lemma InMemory_new_ok [simp]: "InMemory_invar InMemory_new" "InMemory_lookup InMemory_new = Map.empty"
  by (simp_all add: InMemory_new_def InMemory_invar_def InMemory_lookup_def)

lemma InMemory_Update_transact:
  "InMemory_Update code f c r = (res, c', r') \<Longrightarrow>
     transact code f c (InMemory_lookup r) = (fst (transact code f c (InMemory_lookup r)), c', InMemory_lookup r')
     \<and> res = Inr (fst (transact code f c (InMemory_lookup r)))
     \<and> (InMemory_invar r \<longrightarrow> InMemory_invar r')"
  by (auto simp: InMemory_Update_def transact_def InMemory_lookup_def InMemory_invar_def Let_def
      split: option.splits prod.splits if_splits TransactionResult.splits)

lemma InMemory_Update_sel:
  "fst (InMemory_Update code f c r) = Inr (fst (transact code f c (InMemory_lookup r)))"
  "fst (snd (InMemory_Update code f c r)) = fst (snd (transact code f c (InMemory_lookup r)))"
  "InMemory_lookup (snd (snd (InMemory_Update code f c r))) =
     snd (snd (transact code f c (InMemory_lookup r)))"
  "InMemory_invar r \<Longrightarrow> InMemory_invar (snd (snd (InMemory_Update code f c r)))"
  using InMemory_Update_transact [of code f c r]
  by (metis prod.collapse snd_conv fst_conv)+

lemma InMemory_GetRoomCodes_keys:
  assumes "InMemory_invar r"
  shows "\<exists>codes. InMemory_GetRoomCodes ord r = Inr codes \<and> distinct codes
    \<and> set codes = dom (InMemory_lookup r)"
  using assms
  by (simp add: InMemory_GetRoomCodes_def InMemory_invar_def umap_wf_def InMemory_lookup_def
      dom_map_of_conv_image_fst)

lemmas InMemory_Update_contract =
  InMemory_Update_sel [unfolded InMemory_lookup_def InMemory_invar_def]

interpretation mem: room_repository "InMemory_ops ord" InMemory_lookup InMemory_invar
  for ord :: hash_order
  by unfold_locales
    (auto simp: InMemory_GetRoomCodes_keys [unfolded InMemory_invar_def InMemory_lookup_def]
      InMemory_Update_contract InMemory_Add_def InMemory_FindByCode_def InMemory_Remove_def
      InMemory_RemoveIfEmpty_def InMemory_Exists_def InMemory_ParticipantInRoom_def
      InMemory_lookup_def InMemory_invar_def in_store_def case_prod_beta Let_def
      split: option.splits)

section \<open>Properties of the repository\<close>

text \<open>
  C27. The in-memory repository refines the map from room codes to rooms: started empty and
  taken through any sequence of calls, changes and queries, in whatever order the threads acquire
  the mutex, it gives the replies that the atomic operations on the map give (no update of one caller is lost to
  another one's), holds exactly the rooms of the map, and keeps one entry per code.
\<close>

theorem InMemory_refines_store:
  "fst (run_calls (repo_call (InMemory_ops ord)) calls InMemory_new) =
     fst (run_calls store_call calls Map.empty)
   \<and> InMemory_lookup (snd (run_calls (repo_call (InMemory_ops ord)) calls InMemory_new)) =
     snd (run_calls store_call calls Map.empty)
   \<and> distinct (map fst (rooms (snd (run_calls (repo_call (InMemory_ops ord)) calls InMemory_new))))"
  using mem.calls_refine [OF InMemory_new_ok(1), of ord calls]
  by (simp add: InMemory_invar_def umap_wf_def)

text \<open>
  \<^verbatim>\<open>Update\<close> is a transaction: the updater sees a copy of the stored room; unless it says
  commit, the repository is left exactly as it was, and when it does, that room is replaced by
  the updated copy and every other room, and the set of codes, stays. What the updater wrote to
  the variables it captured is kept in either case.
\<close>

theorem InMemory_Update_transaction:
  assumes run: "InMemory_Update code f c r = (res, c', r')"
  shows "case InMemory_lookup r code of
      None \<Rightarrow> res = Inr UpdateNotFound \<and> c' = c \<and> r' = r
    | Some room \<Rightarrow> c' = snd (snd (f room c))
        \<and> (if fst (f room c) = Commit
           then res = Inr Updated
             \<and> InMemory_lookup r' = (InMemory_lookup r)(code \<mapsto> fst (snd (f room c)))
             \<and> map fst (rooms r') = map fst (rooms r)
           else res = Inr Aborted \<and> r' = r)"
proof (cases "map_of (rooms r) code")
  case None
  with run show ?thesis by (simp add: InMemory_Update_def InMemory_lookup_def)
next
  case (Some room)
  obtain t room' d where f: "f room c = (t, room', d)" by (cases "f room c")
  have "code \<in> set (map fst (rooms r))"
    using Some by (force dest: map_of_SomeD)
  then have "map fst (umap_assign code room' (rooms r)) = map fst (rooms r)"
    by (simp add: umap_assign_def update_keys)
  with run Some f show ?thesis
    by (cases t) (auto simp: InMemory_Update_def InMemory_lookup_def)
qed

definition demo_store :: InMemoryRoomRepository where
  "demo_store = \<lparr>rooms = [(''000042'', demo_room), (''000007'', Room_new ''000007'' None)]\<rparr>"

lemma demo_store_invar: "InMemory_invar demo_store"
  by (simp add: InMemory_invar_def umap_wf_def demo_store_def)

theorem InMemory_Update_transaction_witness:
  "InMemory_Update ''000042''
     (\<lambda>room c. (Abort, room\<lparr>GetParticipants := []\<rparr>, length (GetParticipants room))) 0 demo_store
     = (Inr Aborted, 1, demo_store)"
proof -
  let ?f = "\<lambda>room c. (Abort, room\<lparr>GetParticipants := []\<rparr>, length (GetParticipants room))"
  obtain res c' r' where run: "InMemory_Update ''000042'' ?f 0 demo_store = (res, c', r')"
    by (cases "InMemory_Update ''000042'' ?f 0 demo_store")
  show ?thesis
    using InMemory_Update_transaction [OF run] run
    by (simp add: InMemory_lookup_def demo_store_def demo_room_def)
qed

end
