(* ===== verification/Service.thy ===== *)
theory Service
  imports Repository
begin

text \<open>
  The use cases of src/app/RoomService.cpp over any repository: \<^verbatim>\<open>CreateRoom\<close>,
  \<^verbatim>\<open>JoinRoom\<close>, \<^verbatim>\<open>LeaveRoom\<close>, \<^verbatim>\<open>LeaveAllRooms\<close>, \<^verbatim>\<open>GetRoomParticipants\<close> and
  \<^verbatim>\<open>ParticipantInRoom\<close>, each with its catch blocks and early returns.

  The specification is a set of functions on the map from codes to rooms (\<open>store_join\<close>,
  \<open>store_leave\<close>, \<open>store_leave_all\<close>); the locale \<open>room_service\<close> proves, once and for every
  repository that meets its contract, that the use cases implement them and keep the
  invariants of the map.
\<close>

section \<open>Errors and results\<close>

datatype RoomServiceErrorType =
    WrongPassword | RoomNotFound | RoomCodeGenerationFailed | ParticipantUnavailable
  | NotInRoom | AlreadyJoined | RoomAlreadyExists | PasswordNotProvided | InternalError

record RoomServiceError =
  err_type :: RoomServiceErrorType
  err_msg :: string

datatype ParticipantJoinedRoom = ParticipantJoinedRoom RoomCode Participant "Participant list"
datatype ParticipantLeftRoom = ParticipantLeftRoom RoomCode ParticipantId "Participant list"

type_synonym ParticipantJoinedRoomResult = "(ParticipantJoinedRoom, RoomServiceError) Result"
type_synonym ParticipantLeftRoomResult = "(ParticipantLeftRoom, RoomServiceError) Result"
type_synonym ParticipantsLeftRoomResults = "ParticipantLeftRoomResult list"
type_synonym CreateRoomResult = "(Room, RoomServiceError) Result"
type_synonym GetParticipantsResult = "(Participant list, RoomServiceError) Result"

definition BuildRoomAlreadyExistsError :: RoomServiceError where
  "BuildRoomAlreadyExistsError = \<lparr>err_type = RoomAlreadyExists, err_msg = ''Room already exists''\<rparr>"

definition BuildRoomNotFoundError :: RoomServiceError where
  "BuildRoomNotFoundError = \<lparr>err_type = RoomNotFound, err_msg = ''Room not found''\<rparr>"

definition BuildAlreadyJoinedError :: RoomServiceError where
  "BuildAlreadyJoinedError = \<lparr>err_type = AlreadyJoined, err_msg = ''Participant already in room''\<rparr>"

definition BuildNotInRoomError :: RoomServiceError where
  "BuildNotInRoomError =
     \<lparr>err_type = RoomServiceErrorType.NotInRoom, err_msg = ''Participant not in the room''\<rparr>"

definition BuildRoomCodeGenerationFailedError :: RoomServiceError where
  "BuildRoomCodeGenerationFailedError =
     \<lparr>err_type = RoomCodeGenerationFailed, err_msg = ''Room code generation failed''\<rparr>"

definition BuildWrongPasswordError :: RoomServiceError where
  "BuildWrongPasswordError = \<lparr>err_type = WrongPassword, err_msg = ''Wrong password''\<rparr>"

definition BuildPasswordNotProvidedError :: RoomServiceError where
  "BuildPasswordNotProvidedError =
     \<lparr>err_type = PasswordNotProvided, err_msg = ''Password not provided''\<rparr>"

definition BuildInternalError :: RoomServiceError where
  "BuildInternalError = \<lparr>err_type = InternalError, err_msg = ''Internal error''\<rparr>"

lemmas service_errors [service_defs] =
  BuildRoomAlreadyExistsError_def BuildRoomNotFoundError_def BuildAlreadyJoinedError_def
  BuildNotInRoomError_def BuildRoomCodeGenerationFailedError_def BuildWrongPasswordError_def
  BuildPasswordNotProvidedError_def BuildInternalError_def

section \<open>The use cases\<close>

text \<open>
  The six-digit room code of a number the generator drew from 0 to 999999. The numbers drawn in
  one call of \<^verbatim>\<open>CreateRoom\<close> are a parameter: attempt \<open>i\<close> draws \<open>draws i\<close>.
\<close>

definition GenerateRoomCode :: "nat \<Rightarrow> RoomCode" where
  "GenerateRoomCode n = setw_fill 6 CHR ''0'' (show_base 10 n)"

text \<open>The constructor refuses a null repository.\<close>

definition RoomService_new :: "'ops option \<Rightarrow> exn + 'ops" where
  "RoomService_new repository =
     (case repository of None \<Rightarrow> Inl (invalid_argument ''repository_required'') | Some ops \<Rightarrow> Inr ops)"

definition max_attempts :: nat where
  "max_attempts = 100"

function create_room_loop ::
  "('r, 'c) RoomRepository \<Rightarrow> RoomSecret option \<Rightarrow> (nat \<Rightarrow> nat) \<Rightarrow> nat \<Rightarrow> 'r
     \<Rightarrow> CreateRoomResult \<times> 'r"
where
  "create_room_loop ops password draws attempt r =
     (if attempt < max_attempts then
        (let room = Room_new (GenerateRoomCode (draws attempt)) password
         in case Add ops room r of
              (Inl ex, r') \<Rightarrow> (Err BuildInternalError, r')
            | (Inr Added, r') \<Rightarrow> (Ok room, r')
            | (Inr AlreadyExists, r') \<Rightarrow> create_room_loop ops password draws (Suc attempt) r')
      else (Err BuildRoomCodeGenerationFailedError, r))"
  by pat_completeness auto
termination
  by (relation "measure (\<lambda>(ops, password, draws, attempt, r). max_attempts - attempt)") auto

declare create_room_loop.simps [simp del]

definition RoomService_CreateRoom ::
  "('r, 'c) RoomRepository \<Rightarrow> RoomSecret option \<Rightarrow> (nat \<Rightarrow> nat) \<Rightarrow> 'r
     \<Rightarrow> CreateRoomResult \<times> 'r"
where
  "RoomService_CreateRoom ops password draws r = create_room_loop ops password draws 0 r"

text \<open>The local variables that the lambdas of \<^verbatim>\<open>JoinRoom\<close> and \<^verbatim>\<open>LeaveRoom\<close> capture.\<close>

record UpdateCaptures =
  join_result :: "JoinRoomResult option"
  leave_result :: "LeaveRoomResult option"
  captured_participants :: "Participant list"

definition no_captures :: UpdateCaptures where
  "no_captures = \<lparr>join_result = None, leave_result = None, captured_participants = []\<rparr>"

lemma no_captures_sel [simp]:
  "join_result no_captures = None" "leave_result no_captures = None"
  "captured_participants no_captures = []"
  by (simp_all add: no_captures_def)

definition join_updater :: "Participant \<Rightarrow> RoomSecret option \<Rightarrow> UpdateCaptures updater" where
  "join_updater participant password room c =
     (let (jr, room') = TryAddParticipant participant password room;
          c' = c\<lparr>join_result := Some jr\<rparr>
      in if jr \<noteq> Joined then (Abort, room', c')
         else (Commit, room', c'\<lparr>captured_participants := GetParticipants room'\<rparr>))"

definition leave_updater :: "ParticipantId \<Rightarrow> UpdateCaptures updater" where
  "leave_updater pid room c =
     (let (lr, room') = RemoveParticipant pid room;
          c' = c\<lparr>leave_result := Some lr\<rparr>
      in if lr \<noteq> Left then (Abort, room', c')
         else (Commit, room', c'\<lparr>captured_participants := GetParticipants room'\<rparr>))"

definition RoomService_JoinRoom ::
  "('r, UpdateCaptures) RoomRepository \<Rightarrow> RoomCode \<Rightarrow> Participant \<Rightarrow> RoomSecret option \<Rightarrow> 'r
     \<Rightarrow> ParticipantJoinedRoomResult \<times> 'r"
where
  "RoomService_JoinRoom ops code participant password r =
     (case Update ops code (join_updater participant password) no_captures r of
        (Inl ex, c, r') \<Rightarrow> (Err BuildInternalError, r')
      | (Inr res, c, r') \<Rightarrow>
          if res = UpdateNotFound then (Err BuildRoomNotFoundError, r')
          else (case join_result c of
              None \<Rightarrow> (Err BuildInternalError, r')
            | Some jr \<Rightarrow>
                if jr = AlreadyInRoom then (Err BuildAlreadyJoinedError, r')
                else if jr = InvalidSecret then (Err BuildWrongPasswordError, r')
                else if jr = SecretNotProvided then (Err BuildPasswordNotProvidedError, r')
                else (Ok (ParticipantJoinedRoom code participant (captured_participants c)), r')))"

text \<open>
  The first catch block of \<^verbatim>\<open>LeaveRoom\<close> only writes a log line: control goes on with
  whatever the lambda stored before the exception.
\<close>

definition RoomService_LeaveRoom ::
  "('r, UpdateCaptures) RoomRepository \<Rightarrow> RoomCode \<Rightarrow> ParticipantId \<Rightarrow> 'r
     \<Rightarrow> ParticipantLeftRoomResult \<times> 'r"
where
  "RoomService_LeaveRoom ops code pid r =
     (let (res, c, r') = Update ops code (leave_updater pid) no_captures r
      in if res = Inr UpdateNotFound then (Err BuildRoomNotFoundError, r')
         else (case leave_result c of
             None \<Rightarrow> (Err BuildInternalError, r')
           | Some lr \<Rightarrow>
               if lr = LeaveRoomResult.NotInRoom then (Err BuildNotInRoomError, r')
               else (case RemoveIfEmpty ops code r' of
                   (Inl ex, r'') \<Rightarrow> (Err BuildInternalError, r'')
                 | (Inr _, r'') \<Rightarrow>
                     (Ok (ParticipantLeftRoom code pid (captured_participants c)), r''))))"

definition keep_result :: "ParticipantLeftRoomResult \<Rightarrow> bool" where
  "keep_result res = (case res of Ok _ \<Rightarrow> True | Err e \<Rightarrow> err_type e = InternalError)"

fun leave_rooms ::
  "('r, UpdateCaptures) RoomRepository \<Rightarrow> ParticipantId \<Rightarrow> RoomCode list \<Rightarrow> 'r
     \<Rightarrow> ParticipantsLeftRoomResults \<times> 'r"
where
  "leave_rooms ops pid [] r = ([], r)"
| "leave_rooms ops pid (code # codes) r =
     (let (res, r') = RoomService_LeaveRoom ops code pid r;
          (ress, r'') = leave_rooms ops pid codes r'
      in (if keep_result res then res # ress else ress, r''))"

definition RoomService_LeaveAllRooms ::
  "('r, UpdateCaptures) RoomRepository \<Rightarrow> ParticipantId \<Rightarrow> 'r
     \<Rightarrow> (exn + ParticipantsLeftRoomResults) \<times> 'r"
where
  "RoomService_LeaveAllRooms ops pid r =
     (case GetRoomCodes ops r of
        Inl ex \<Rightarrow> (Inl ex, r)
      | Inr codes \<Rightarrow> (let (ress, r') = leave_rooms ops pid codes r in (Inr ress, r')))"

definition RoomService_GetRoomParticipants ::
  "('r, 'c) RoomRepository \<Rightarrow> RoomCode \<Rightarrow> 'r \<Rightarrow> exn + GetParticipantsResult"
where
  "RoomService_GetRoomParticipants ops code r =
     andThen (FindByCode ops code r) (\<lambda>room.
       case room of
         None \<Rightarrow> Inr (Err BuildRoomNotFoundError)
       | Some rm \<Rightarrow> Inr (Ok (GetParticipants rm)))"

definition RoomService_ParticipantInRoom ::
  "('r, 'c) RoomRepository \<Rightarrow> ParticipantId \<Rightarrow> RoomCode \<Rightarrow> 'r \<Rightarrow> exn + bool"
where
  "RoomService_ParticipantInRoom ops pid code r = ParticipantInRoom ops pid code r"

section \<open>Specification on the map of rooms\<close>

definition without :: "ParticipantId \<Rightarrow> Room \<Rightarrow> Room" where
  "without pid room = room\<lparr>GetParticipants := filter (\<lambda>p. GetId p \<noteq> pid) (GetParticipants room)\<rparr>"

definition store_join ::
  "RoomCode \<Rightarrow> Participant \<Rightarrow> RoomSecret option \<Rightarrow> store \<Rightarrow> ParticipantJoinedRoomResult \<times> store"
where
  "store_join code p password m =
     (case m code of
        None \<Rightarrow> (Err BuildRoomNotFoundError, m)
      | Some room \<Rightarrow>
          if GetId p \<in> member_ids room then (Err BuildAlreadyJoinedError, m)
          else if admits password room then
            (Ok (ParticipantJoinedRoom code p (GetParticipants room @ [p])),
             m(code \<mapsto> room\<lparr>GetParticipants := GetParticipants room @ [p]\<rparr>))
          else if password = None then (Err BuildPasswordNotProvidedError, m)
          else (Err BuildWrongPasswordError, m))"

definition store_leave ::
  "RoomCode \<Rightarrow> ParticipantId \<Rightarrow> store \<Rightarrow> ParticipantLeftRoomResult \<times> store"
where
  "store_leave code pid m =
     (case m code of
        None \<Rightarrow> (Err BuildRoomNotFoundError, m)
      | Some room \<Rightarrow>
          if pid \<notin> member_ids room then (Err BuildNotInRoomError, m)
          else (Ok (ParticipantLeftRoom code pid (GetParticipants (without pid room))),
                m(code := if IsEmpty (without pid room) then None else Some (without pid room))))"

text \<open>The map after a participant has left every room: rooms that become empty are gone.\<close>

definition left_room :: "ParticipantId \<Rightarrow> Room \<Rightarrow> Room option" where
  "left_room pid room =
     (if pid \<in> member_ids room
      then if IsEmpty (without pid room) then None else Some (without pid room)
      else Some room)"

definition store_leave_all :: "ParticipantId \<Rightarrow> store \<Rightarrow> store" where
  "store_leave_all pid m = (\<lambda>code. Option.bind (m code) (left_room pid))"

text \<open>Who is left in a room, and what is reported for the rooms that were left, in visiting order.\<close>

definition remaining :: "ParticipantId \<Rightarrow> store \<Rightarrow> RoomCode \<Rightarrow> Participant list" where
  "remaining pid m code =
     (case m code of None \<Rightarrow> [] | Some room \<Rightarrow> GetParticipants (without pid room))"

definition departures :: "ParticipantId \<Rightarrow> store \<Rightarrow> RoomCode list \<Rightarrow> ParticipantLeftRoom list" where
  "departures pid m codes =
     map (\<lambda>code. ParticipantLeftRoom code pid (remaining pid m code))
       (filter (\<lambda>code. in_store pid code m) codes)"

text \<open>Creation takes the first drawn code that is free, among the first hundred.\<close>

definition store_create ::
  "RoomSecret option \<Rightarrow> (nat \<Rightarrow> nat) \<Rightarrow> nat list \<Rightarrow> store \<Rightarrow> CreateRoomResult \<times> store"
where
  "store_create password draws attempts m =
     (case find (\<lambda>i. m (GenerateRoomCode (draws i)) = None) attempts of
        None \<Rightarrow> (Err BuildRoomCodeGenerationFailedError, m)
      | Some i \<Rightarrow>
          (let room = Room_new (GenerateRoomCode (draws i)) password
           in (Ok room, m(GetCode room \<mapsto> room))))"

text \<open>
  The invariants of the map: every room is filed under its own code and has no duplicate ids;
  and no room is empty.
\<close>

definition store_wf :: "store \<Rightarrow> bool" where
  "store_wf m \<longleftrightarrow> (\<forall>code room. m code = Some room \<longrightarrow> GetCode room = code \<and> room_wf room)"

definition no_empty_room :: "store \<Rightarrow> bool" where
  "no_empty_room m \<longleftrightarrow> (\<forall>code room. m code = Some room \<longrightarrow> \<not> IsEmpty room)"

lemma store_wf_empty [simp]: "store_wf Map.empty" "no_empty_room Map.empty"
  by (simp_all add: store_wf_def no_empty_room_def)

lemma Remove_without: "snd (RemoveParticipant pid room) = without pid room"
  by (simp add: Remove_room without_def)

lemma without_sel [simp]:
  "GetCode (without pid room) = GetCode room" "room_secret (without pid room) = room_secret room"
  "member_ids (without pid room) = member_ids room - {pid}"
  by (auto simp: without_def member_ids_def)

lemma room_wf_without [simp]: "room_wf room \<Longrightarrow> room_wf (without pid room)"
  by (simp add: Remove_without [symmetric])

lemma without_absent: "pid \<notin> member_ids room \<Longrightarrow> without pid room = room"
  by (simp add: without_def member_ids_def filter_out_absent)

lemma GetParticipants_without [simp]:
  "GetParticipants (without pid room) = filter (\<lambda>p. GetId p \<noteq> pid) (GetParticipants room)"
  by (simp add: without_def)

lemma room_wf_snoc:
  "room_wf room \<Longrightarrow> GetId p \<notin> member_ids room \<Longrightarrow>
     room_wf (room\<lparr>GetParticipants := GetParticipants room @ [p]\<rparr>)"
  by (simp add: room_wf_def member_ids_def)

lemma store_join_keeps:
  "store_wf m \<Longrightarrow> store_wf (snd (store_join code p password m))"
  "no_empty_room m \<Longrightarrow> no_empty_room (snd (store_join code p password m))"
  by (auto simp: store_join_def store_wf_def no_empty_room_def IsEmpty_def room_wf_snoc
      split: option.splits)

lemma store_leave_keeps:
  "store_wf m \<Longrightarrow> store_wf (snd (store_leave code pid m))"
  "no_empty_room m \<Longrightarrow> no_empty_room (snd (store_leave code pid m))"
  by (auto simp: store_leave_def store_wf_def no_empty_room_def split: option.splits)

lemma store_leave_map:
  "snd (store_leave code pid m) = m(code := Option.bind (m code) (left_room pid))"
  by (auto simp: store_leave_def left_room_def fun_upd_idem split: option.splits)

lemma store_leave_kept:
  "keep_result (fst (store_leave code pid m)) \<longleftrightarrow> in_store pid code m"
  by (auto simp: store_leave_def keep_result_def in_store_def service_errors split: option.splits)

lemma store_leave_Ok:
  "in_store pid code m \<Longrightarrow>
     fst (store_leave code pid m) = Ok (ParticipantLeftRoom code pid (remaining pid m code))"
  by (auto simp: store_leave_def in_store_def remaining_def split: option.splits)

lemma departures_cong:
  "(\<And>code. code \<in> set codes \<Longrightarrow> m code = m' code) \<Longrightarrow> departures pid m codes = departures pid m' codes"
  by (auto simp: departures_def in_store_def remaining_def intro!: map_cong filter_cong)

lemma store_create_keeps:
  "store_wf m \<Longrightarrow> store_wf (snd (store_create password draws attempts m))"
  by (auto simp: store_create_def store_wf_def Let_def split: option.splits)

lemma left_room_keeps:
  "left_room pid room = Some room' \<Longrightarrow>
     GetCode room' = GetCode room \<and> (room_wf room \<longrightarrow> room_wf room')
     \<and> (\<not> IsEmpty room \<longrightarrow> \<not> IsEmpty room') \<and> pid \<notin> member_ids room'"
  by (auto simp: left_room_def split: if_splits)

lemma store_leave_all_keeps:
  "store_wf m \<Longrightarrow> store_wf (store_leave_all pid m)"
  "no_empty_room m \<Longrightarrow> no_empty_room (store_leave_all pid m)"
  by (auto simp: store_leave_all_def store_wf_def no_empty_room_def bind_eq_Some_conv
      dest: left_room_keeps)

lemma store_leave_all_absent: "\<not> in_store pid code (store_leave_all pid m)"
  by (auto simp: in_store_def store_leave_all_def bind_eq_Some_conv
      split: option.splits dest: left_room_keeps)

section \<open>The use cases implement the specification\<close>

lemma transact_join:
  "transact code (join_updater p password) no_captures m =
     (case m code of
        None \<Rightarrow> (UpdateNotFound, no_captures, m)
      | Some room \<Rightarrow>
          (let jr = fst (TryAddParticipant p password room)
           in if jr = Joined
              then (Updated, \<lparr>join_result = Some jr, leave_result = None,
                      captured_participants = GetParticipants room @ [p]\<rparr>,
                    m(code \<mapsto> room\<lparr>GetParticipants := GetParticipants room @ [p]\<rparr>))
              else (Aborted, no_captures\<lparr>join_result := Some jr\<rparr>, m)))"
  by (auto simp: transact_def join_updater_def case_prod_beta Let_def TryAdd_room no_captures_def
      split: option.splits)

lemma transact_leave:
  "transact code (leave_updater pid) no_captures m =
     (case m code of
        None \<Rightarrow> (UpdateNotFound, no_captures, m)
      | Some room \<Rightarrow>
          if pid \<in> member_ids room
          then (Updated, \<lparr>join_result = None, leave_result = Some Left,
                  captured_participants = GetParticipants (without pid room)\<rparr>,
                m(code \<mapsto> without pid room))
          else (Aborted, no_captures\<lparr>leave_result := Some LeaveRoomResult.NotInRoom\<rparr>, m))"
  by (auto simp: transact_def leave_updater_def case_prod_beta Let_def Remove_result Remove_without
      no_captures_def split: option.splits)

locale room_service = room_repository ops lookup invar
  for ops :: "('r, UpdateCaptures) RoomRepository"
    and lookup :: "'r \<Rightarrow> store"
    and invar :: "'r \<Rightarrow> bool"
begin

lemma JoinRoom_refines:
  assumes "invar r"
  shows "fst (RoomService_JoinRoom ops code p password r) = fst (store_join code p password (lookup r))"
    and "lookup (snd (RoomService_JoinRoom ops code p password r)) =
      snd (store_join code p password (lookup r))"
    and "invar (snd (RoomService_JoinRoom ops code p password r))"
proof -
  obtain res c r' where u:
    "Update ops code (join_updater p password) no_captures r = (res, c, r')"
    by (cases "Update ops code (join_updater p password) no_captures r")
  note laws = update_result [OF assms, of code "join_updater p password" no_captures]
    update_captures [OF assms, of code "join_updater p password" no_captures]
    update_lookup [OF assms, of code "join_updater p password" no_captures]
    update_invar [OF assms, of code "join_updater p password" no_captures]
  from u laws show
    "fst (RoomService_JoinRoom ops code p password r) = fst (store_join code p password (lookup r))"
    "lookup (snd (RoomService_JoinRoom ops code p password r)) =
      snd (store_join code p password (lookup r))"
    "invar (snd (RoomService_JoinRoom ops code p password r))"
    by (auto simp: RoomService_JoinRoom_def transact_join store_join_def TryAdd_result
        Let_def split: option.splits if_splits)
qed

lemma LeaveRoom_refines:
  assumes "invar r"
  shows "fst (RoomService_LeaveRoom ops code pid r) = fst (store_leave code pid (lookup r))"
    and "lookup (snd (RoomService_LeaveRoom ops code pid r)) = snd (store_leave code pid (lookup r))"
    and "invar (snd (RoomService_LeaveRoom ops code pid r))"
proof -
  obtain res c r' where u: "Update ops code (leave_updater pid) no_captures r = (res, c, r')"
    by (cases "Update ops code (leave_updater pid) no_captures r")
  have inv': "invar r'"
    using update_invar [OF assms, of code "leave_updater pid" no_captures] u by simp
  obtain res2 r'' where e: "RemoveIfEmpty ops code r' = (res2, r'')"
    by (cases "RemoveIfEmpty ops code r'")
  note laws = update_result [OF assms, of code "leave_updater pid" no_captures]
    update_captures [OF assms, of code "leave_updater pid" no_captures]
    update_lookup [OF assms, of code "leave_updater pid" no_captures]
    remove_empty_result [OF inv', of code] remove_empty_lookup [OF inv', of code]
    remove_empty_invar [OF inv', of code]
  from u e inv' laws show
    "fst (RoomService_LeaveRoom ops code pid r) = fst (store_leave code pid (lookup r))"
    "lookup (snd (RoomService_LeaveRoom ops code pid r)) = snd (store_leave code pid (lookup r))"
    "invar (snd (RoomService_LeaveRoom ops code pid r))"
    by (auto simp: RoomService_LeaveRoom_def transact_leave store_leave_def
        Let_def fun_upd_idem split: option.splits if_splits)
qed

lemma leave_rooms_refines:
  assumes "invar r" and "distinct codes"
  shows "fst (leave_rooms ops pid codes r) = map Ok (departures pid (lookup r) codes)
    \<and> lookup (snd (leave_rooms ops pid codes r)) =
        (\<lambda>code. if code \<in> set codes then Option.bind (lookup r code) (left_room pid) else lookup r code)
    \<and> invar (snd (leave_rooms ops pid codes r))"
  using assms
proof (induction codes arbitrary: r)
  case Nil
  then show ?case by (simp add: departures_def)
next
  case (Cons code codes)
  let ?r = "snd (RoomService_LeaveRoom ops code pid r)"
  note one = LeaveRoom_refines [OF Cons.prems(1), of code pid]
  have look: "lookup ?r = (lookup r)(code := Option.bind (lookup r code) (left_room pid))"
    by (simp add: one store_leave_map)
  have "departures pid (lookup ?r) codes = departures pid (lookup r) codes"
    using Cons.prems(2) by (intro departures_cong) (auto simp: look)
  then have IH: "fst (leave_rooms ops pid codes ?r) = map Ok (departures pid (lookup r) codes)"
    "lookup (snd (leave_rooms ops pid codes ?r)) =
      (\<lambda>c. if c \<in> set codes then Option.bind (lookup ?r c) (left_room pid) else lookup ?r c)"
    "invar (snd (leave_rooms ops pid codes ?r))"
    using Cons.IH [of ?r] Cons.prems one(3) by auto
  have "fst (leave_rooms ops pid (code # codes) r) = map Ok (departures pid (lookup r) (code # codes))"
    by (simp add: case_prod_beta Let_def IH(1) one(1) store_leave_kept store_leave_Ok departures_def)
  with IH(2,3) Cons.prems(2) show ?case
    by (auto simp: case_prod_beta Let_def look fun_eq_iff)
qed

lemma LeaveAllRooms_refines:
  assumes "invar r"
  obtains codes where "distinct codes" and "set codes = dom (lookup r)"
    and "fst (RoomService_LeaveAllRooms ops pid r) = Inr (map Ok (departures pid (lookup r) codes))"
    and "lookup (snd (RoomService_LeaveAllRooms ops pid r)) = store_leave_all pid (lookup r)"
    and "invar (snd (RoomService_LeaveAllRooms ops pid r))"
proof -
  obtain codes where codes: "GetRoomCodes ops r = Inr codes" "distinct codes"
    "set codes = dom (lookup r)"
    using codes_result [OF assms] by blast
  note all = leave_rooms_refines [OF assms codes(2), of pid]
  have "(\<lambda>c. if c \<in> set codes then Option.bind (lookup r c) (left_room pid) else lookup r c)
      = store_leave_all pid (lookup r)"
    using codes(3) by (auto simp: store_leave_all_def fun_eq_iff domIff)
  with all codes show ?thesis
    by (intro that [of codes]) (simp_all add: RoomService_LeaveAllRooms_def case_prod_beta)
qed

lemma create_room_loop_refines:
  assumes "invar r"
  shows "fst (create_room_loop ops password draws attempt r) =
      fst (store_create password draws [attempt..<max_attempts] (lookup r))
    \<and> lookup (snd (create_room_loop ops password draws attempt r)) =
      snd (store_create password draws [attempt..<max_attempts] (lookup r))
    \<and> invar (snd (create_room_loop ops password draws attempt r))"
  using assms
proof (induction "max_attempts - attempt" arbitrary: attempt r)
  case 0
  then show ?case
    by (subst (1 2 3) create_room_loop.simps) (simp add: store_create_def)
next
  case (Suc n)
  let ?room = "Room_new (GenerateRoomCode (draws attempt)) password"
  obtain res r' where add: "Add ops ?room r = (res, r')" by (cases "Add ops ?room r")
  note laws = add_result [OF Suc.prems, of ?room] add_lookup [OF Suc.prems, of ?room]
    add_invar [OF Suc.prems, of ?room]
  have lt: "attempt < max_attempts" using Suc.hyps(2) by simp
  then have upt: "[attempt..<max_attempts] = attempt # [Suc attempt..<max_attempts]"
    by (rule upt_conv_Cons)
  show ?case
  proof (cases "lookup r (GenerateRoomCode (draws attempt)) = None")
    case True
    with add laws lt show ?thesis
      by (subst (1 2 3) create_room_loop.simps) (simp add: upt store_create_def Let_def)
  next
    case False
    then have r': "res = Inr AlreadyExists" "lookup r' = lookup r" "invar r'"
      using add laws by auto
    have IH: "fst (create_room_loop ops password draws (Suc attempt) r') =
        fst (store_create password draws [Suc attempt..<max_attempts] (lookup r'))
      \<and> lookup (snd (create_room_loop ops password draws (Suc attempt) r')) =
        snd (store_create password draws [Suc attempt..<max_attempts] (lookup r'))
      \<and> invar (snd (create_room_loop ops password draws (Suc attempt) r'))"
      using Suc.hyps r'(3) by simp
    have "create_room_loop ops password draws attempt r =
        create_room_loop ops password draws (Suc attempt) r'"
      using add r'(1) lt by (subst create_room_loop.simps) (simp add: Let_def)
    with IH r' False show ?thesis by (auto simp: upt store_create_def)
  qed
qed

lemma CreateRoom_refines:
  assumes "invar r"
  shows "fst (RoomService_CreateRoom ops password draws r) =
      fst (store_create password draws [0..<max_attempts] (lookup r))"
    and "lookup (snd (RoomService_CreateRoom ops password draws r)) =
      snd (store_create password draws [0..<max_attempts] (lookup r))"
    and "invar (snd (RoomService_CreateRoom ops password draws r))"
  using create_room_loop_refines [OF assms, of password draws 0]
  by (simp_all add: RoomService_CreateRoom_def)

end

abbreviation mem_ops :: "hash_order \<Rightarrow> (InMemoryRoomRepository, UpdateCaptures) RoomRepository" where
  "mem_ops \<equiv> InMemory_ops"

interpretation service: room_service "mem_ops ord" InMemory_lookup InMemory_invar
  for ord :: hash_order
  by unfold_locales

section \<open>Properties of the room service\<close>

lemma read_GenerateRoomCode: "read_base 10 (GenerateRoomCode n) = n"
  by (simp add: GenerateRoomCode_def read_setw_fill)

lemma GenerateRoomCode_inject [simp]: "GenerateRoomCode m = GenerateRoomCode n \<longleftrightarrow> m = n"
  by (metis read_GenerateRoomCode)

text \<open>The two outcomes of creation, on the map.\<close>

lemma store_create_Some:
  assumes "find (\<lambda>i. m (GenerateRoomCode (draws i)) = None) [0..<n] = Some i"
  shows "i < n" and "m (GenerateRoomCode (draws i)) = None"
    and "\<forall>j < i. m (GenerateRoomCode (draws j)) \<noteq> None"
  using assms by (auto simp: find_Some_iff)

lemma store_create_None:
  "find (\<lambda>i. m (GenerateRoomCode (draws i)) = None) [0..<n] = None \<longleftrightarrow>
     (\<forall>i < n. m (GenerateRoomCode (draws i)) \<noteq> None)"
  by (auto simp: find_None_iff)

text \<open>Codes have six digits, and different numbers give different codes.\<close>

lemma GenerateRoomCode_digits:
  assumes "n \<le> 999999"
  shows "length (GenerateRoomCode n) = 6 \<and> set (GenerateRoomCode n) \<subseteq> set ''0123456789''
    \<and> (\<forall>k. GenerateRoomCode k = GenerateRoomCode n \<longleftrightarrow> k = n)"
proof -
  have "length (show_base 10 n) \<le> 6"
    using assms by (intro length_show_base) auto
  then have "length (GenerateRoomCode n) = 6"
    by (simp add: GenerateRoomCode_def length_setw_fill)
  moreover have "set (show_base 10 n) \<subseteq> set ''0123456789''"
    using set_show_base [of 10 n] by simp
  then have "set (GenerateRoomCode n) \<subseteq> set ''0123456789''"
    using set_setw_fill [of 6 "CHR ''0''" "show_base 10 n"] by (auto simp: GenerateRoomCode_def)
  ultimately show ?thesis by simp
qed

text \<open>
  Creating a room: the first of the hundred drawn codes that no stored room has becomes a new
  room without participants and with the given password, and nothing else changes; only when all
  hundred are taken does the call fail, with the code-generation error, and the repository is
  as before.
\<close>

theorem CreateRoom_first_free_code:
  assumes inv: "InMemory_invar r"
    and run: "RoomService_CreateRoom (mem_ops ord) password draws r = (res, r')"
  shows "case res of
      Ok room \<Rightarrow> (\<exists>i < 100. room = Room_new (GenerateRoomCode (draws i)) password
        \<and> InMemory_lookup r (GetCode room) = None
        \<and> (\<forall>j < i. InMemory_lookup r (GenerateRoomCode (draws j)) \<noteq> None)
        \<and> InMemory_lookup r' = (InMemory_lookup r)(GetCode room \<mapsto> room))
    | Err e \<Rightarrow> e = BuildRoomCodeGenerationFailedError
        \<and> (\<forall>i < 100. InMemory_lookup r (GenerateRoomCode (draws i)) \<noteq> None)
        \<and> InMemory_lookup r' = InMemory_lookup r"
proof -
  let ?found = "find (\<lambda>i. InMemory_lookup r (GenerateRoomCode (draws i)) = None) [0..<max_attempts]"
  have res: "res = fst (store_create password draws [0..<max_attempts] (InMemory_lookup r))"
    and r': "InMemory_lookup r' = snd (store_create password draws [0..<max_attempts] (InMemory_lookup r))"
    using service.CreateRoom_refines [OF inv, of ord password draws] run by auto
  show ?thesis
  proof (cases ?found)
    case None
    then have "store_create password draws [0..<max_attempts] (InMemory_lookup r) =
        (Err BuildRoomCodeGenerationFailedError, InMemory_lookup r)"
      by (simp add: store_create_def)
    moreover have "\<forall>i < 100. InMemory_lookup r (GenerateRoomCode (draws i)) \<noteq> None"
      using None by (simp add: store_create_None max_attempts_def del: not_None_eq)
    ultimately show ?thesis using res r' by simp
  next
    case (Some i)
    then have "store_create password draws [0..<max_attempts] (InMemory_lookup r) =
        (let room = Room_new (GenerateRoomCode (draws i)) password
         in (Ok room, (InMemory_lookup r)(GetCode room \<mapsto> room)))"
      by (simp add: store_create_def)
    with store_create_Some [OF Some] res r' show ?thesis
      by (auto simp: Let_def max_attempts_def)
  qed
qed

theorem CreateRoom_first_free_code_witness:
  "\<exists>r'. RoomService_CreateRoom (mem_ops stored_order) None (\<lambda>i. 42 + i) demo_store
       = (Ok (Room_new ''000043'' None), r')
     \<and> InMemory_lookup r' = (InMemory_lookup demo_store)(''000043'' \<mapsto> Room_new ''000043'' None)"
proof -
  obtain res r' where run:
    "RoomService_CreateRoom (mem_ops stored_order) None (\<lambda>i. 42 + i) demo_store = (res, r')"
    by fastforce
  note inv = demo_store_invar
  have codes: "GenerateRoomCode 42 = ''000042''" "GenerateRoomCode 43 = ''000043''"
    by code_simp+
  have free: "InMemory_lookup demo_store ''000043'' = None"
    by (simp add: InMemory_lookup_def demo_store_def)
  have taken: "InMemory_lookup demo_store ''000042'' \<noteq> None"
    by (simp add: InMemory_lookup_def demo_store_def)
  have first: "i = 1" if "InMemory_lookup demo_store (GenerateRoomCode (42 + i)) = None"
    "\<forall>j < i. InMemory_lookup demo_store (GenerateRoomCode (42 + j)) \<noteq> None" for i
  proof -
    have "i \<noteq> 0" using that(1) codes(1) taken by (metis add.right_neutral)
    moreover have "\<not> 1 < i" using that(2) codes(2) free by auto
    ultimately show ?thesis by simp
  qed
  show ?thesis
  proof (cases res)
    case (Ok room)
    obtain i where i: "room = Room_new (GenerateRoomCode (42 + i)) None"
        "InMemory_lookup demo_store (GetCode room) = None"
        "\<forall>j < i. InMemory_lookup demo_store (GenerateRoomCode (42 + j)) \<noteq> None"
        "InMemory_lookup r' = (InMemory_lookup demo_store)(GetCode room \<mapsto> room)"
      using CreateRoom_first_free_code [OF inv run] unfolding Ok Result.case by blast
    have "i = 1" using first i(1,2,3) by simp
    then have "room = Room_new ''000043'' None" using i(1) codes(2) by simp
    with i(4) run Ok show ?thesis by simp
  next
    case (Err e)
    have "InMemory_lookup demo_store (GenerateRoomCode (42 + 1)) \<noteq> None"
      using CreateRoom_first_free_code [OF inv run] unfolding Err Result.case
      by (metis one_less_numeral_iff semiring_norm(76))
    with free codes(2) show ?thesis by simp
  qed
qed

text \<open>
  C32. Room creation cannot fail while there are fewer rooms than different numbers among the
  hundred draws: the retry loop ends with a fresh code.
\<close>

theorem CreateRoom_succeeds_when_sparse:
  assumes inv: "InMemory_invar r"
    and sparse: "card (dom (InMemory_lookup r)) < card (draws ` {..<100})"
  shows "\<exists>room r'. RoomService_CreateRoom (mem_ops ord) password draws r = (Ok room, r')
    \<and> InMemory_lookup r' (GetCode room) = Some room"
proof -
  let ?spec = "store_create password draws [0..<max_attempts] (InMemory_lookup r)"
  have "\<exists>i < 100. InMemory_lookup r (GenerateRoomCode (draws i)) = None"
  proof (rule ccontr)
    assume "\<not> ?thesis"
    then have "GenerateRoomCode ` draws ` {..<100} \<subseteq> dom (InMemory_lookup r)" by auto
    then have "card (GenerateRoomCode ` draws ` {..<100}) \<le> card (dom (InMemory_lookup r))"
      by (intro card_mono) (simp_all add: InMemory_lookup_def finite_dom_map_of)
    moreover have "card (GenerateRoomCode ` draws ` {..<100}) = card (draws ` {..<100})"
      by (intro card_image inj_onI) simp
    ultimately show False using sparse by simp
  qed
  then obtain room where "?spec = (Ok room, (InMemory_lookup r)(GetCode room \<mapsto> room))"
    by (cases "find (\<lambda>i. InMemory_lookup r (GenerateRoomCode (draws i)) = None) [0..<max_attempts]")
      (auto simp: store_create_def Let_def store_create_None max_attempts_def)
  then show ?thesis
    using service.CreateRoom_refines [OF inv, of ord password draws]
    by (metis fst_conv snd_conv fun_upd_same prod.collapse)
qed

theorem CreateRoom_succeeds_when_sparse_witness:
  "\<exists>room r'. RoomService_CreateRoom (mem_ops stored_order) (Some ''pw'') (\<lambda>i. i) demo_store = (Ok room, r')"
proof -
  have "card (dom (InMemory_lookup demo_store)) < card ((\<lambda>i::nat. i) ` {..<100})"
    by (simp add: InMemory_lookup_def demo_store_def)
  with demo_store_invar show ?thesis
    using CreateRoom_succeeds_when_sparse [of demo_store "\<lambda>i. i" stored_order "Some ''pw''"] by blast
qed

text \<open>
  C16. Joining implements its specification on the map of rooms on every path: an unknown code, a
  participant who is already in, a missing or wrong password leave the map unchanged and give
  their own error; otherwise the participant is appended to that room, and the answer lists the
  members of the room including the newcomer.
\<close>

theorem JoinRoom_refines_store_join:
  assumes "InMemory_invar r"
    and "RoomService_JoinRoom (mem_ops ord) code p password r = (res, r')"
  shows "store_join code p password (InMemory_lookup r) = (res, InMemory_lookup r') \<and> InMemory_invar r'"
  using service.JoinRoom_refines [OF assms(1), of ord code p password] assms(2)
  by (metis fst_conv snd_conv prod.collapse)

theorem JoinRoom_refines_store_join_witness:
  "\<exists>r'. RoomService_JoinRoom (mem_ops stored_order) ''000042'' \<lparr>GetId = ''p_2'', GetName = ''Bob''\<rparr>
        (Some ''wrong'') demo_store = (Err BuildWrongPasswordError, r')
     \<and> InMemory_lookup r' = InMemory_lookup demo_store"
proof -
  let ?p = "\<lparr>GetId = ''p_2'', GetName = ''Bob''\<rparr>"
  obtain res r' where run:
    "RoomService_JoinRoom (mem_ops stored_order) ''000042'' ?p (Some ''wrong'') demo_store = (res, r')"
    by fastforce
  note inv = demo_store_invar
  have "store_join ''000042'' ?p (Some ''wrong'') (InMemory_lookup demo_store) =
      (Err BuildWrongPasswordError, InMemory_lookup demo_store)"
    by (simp add: store_join_def InMemory_lookup_def demo_store_def demo_room_def member_ids_def admits_def)
  with JoinRoom_refines_store_join [OF inv run] run show ?thesis by simp
qed

text \<open>
  C17. Leaving implements its specification on every path: an unknown code or a participant who
  is not in the room give their error and change nothing; otherwise exactly that participant is
  removed from exactly that room, the answer lists those who stay, and the room itself is
  deleted when nobody stays.
\<close>

theorem LeaveRoom_refines_store_leave:
  assumes "InMemory_invar r"
    and "RoomService_LeaveRoom (mem_ops ord) code pid r = (res, r')"
  shows "store_leave code pid (InMemory_lookup r) = (res, InMemory_lookup r') \<and> InMemory_invar r'"
  using service.LeaveRoom_refines [OF assms(1), of ord code pid] assms(2)
  by (metis fst_conv snd_conv prod.collapse)

theorem LeaveRoom_refines_store_leave_witness:
  "\<exists>r'. RoomService_LeaveRoom (mem_ops stored_order) ''000042'' ''p_1'' demo_store
        = (Ok (ParticipantLeftRoom ''000042'' ''p_1'' []), r')
     \<and> InMemory_lookup r' ''000042'' = None"
proof -
  obtain res r' where run:
    "RoomService_LeaveRoom (mem_ops stored_order) ''000042'' ''p_1'' demo_store = (res, r')"
    by fastforce
  note inv = demo_store_invar
  have "store_leave ''000042'' ''p_1'' (InMemory_lookup demo_store) =
      (Ok (ParticipantLeftRoom ''000042'' ''p_1'' []), (InMemory_lookup demo_store)(''000042'' := None))"
    by (simp add: store_leave_def InMemory_lookup_def demo_store_def demo_room_def member_ids_def
        IsEmpty_def without_def)
  with LeaveRoom_refines_store_leave [OF inv run] run show ?thesis by (metis Pair_inject fun_upd_same)
qed

lemma in_store_leave_all_other:
  "q \<noteq> pid \<Longrightarrow> in_store q code (store_leave_all pid m) = in_store q code m"
  by (auto simp: in_store_def store_leave_all_def left_room_def IsEmpty_iff_member_ids
      split: option.splits)

text \<open>
  Disconnecting: \<^verbatim>\<open>LeaveAllRooms\<close> visits every room once; afterwards the participant is in
  no room, everybody else is where they were, rooms left without members are deleted, and the
  results are exactly one success per room the participant was in, with those who stay.
\<close>

theorem LeaveAllRooms_leaves_everything:
  assumes inv: "InMemory_invar r"
    and run: "RoomService_LeaveAllRooms (mem_ops ord) pid r = (res, r')"
  shows "(\<exists>codes. distinct codes \<and> set codes = dom (InMemory_lookup r)
        \<and> res = Inr (map Ok (departures pid (InMemory_lookup r) codes)))
    \<and> InMemory_lookup r' = store_leave_all pid (InMemory_lookup r)
    \<and> (\<forall>code. \<not> in_store pid code (InMemory_lookup r'))
    \<and> (\<forall>q code. q \<noteq> pid \<longrightarrow>
          in_store q code (InMemory_lookup r') = in_store q code (InMemory_lookup r))"
proof -
  obtain codes where "distinct codes" "set codes = dom (InMemory_lookup r)"
    "fst (RoomService_LeaveAllRooms (mem_ops ord) pid r) =
      Inr (map Ok (departures pid (InMemory_lookup r) codes))"
    "InMemory_lookup (snd (RoomService_LeaveAllRooms (mem_ops ord) pid r)) =
      store_leave_all pid (InMemory_lookup r)"
    using service.LeaveAllRooms_refines [OF inv, of ord pid] by metis
  with run show ?thesis
    by (auto simp: store_leave_all_absent in_store_leave_all_other)
qed

theorem LeaveAllRooms_leaves_everything_witness:
  "\<exists>res r'. RoomService_LeaveAllRooms (mem_ops reverse_order) ''p_1'' demo_store = (res, r')
     \<and> \<not> in_store ''p_1'' ''000042'' (InMemory_lookup r')"
  using LeaveAllRooms_leaves_everything [OF demo_store_invar] by (metis prod.collapse)

text \<open>
  C33. Every use case keeps the shape of the repository: each room is filed under its own code
  and has no duplicate ids. Joining, leaving and disconnecting moreover never leave an empty
  room behind.
\<close>

theorem use_cases_keep_store_invariants:
  assumes inv: "InMemory_invar r" and wf: "store_wf (InMemory_lookup r)"
  shows "store_wf (InMemory_lookup (snd (RoomService_CreateRoom (mem_ops ord) password draws r)))
    \<and> store_wf (InMemory_lookup (snd (RoomService_JoinRoom (mem_ops ord) code p password r)))
    \<and> store_wf (InMemory_lookup (snd (RoomService_LeaveRoom (mem_ops ord) code pid r)))
    \<and> store_wf (InMemory_lookup (snd (RoomService_LeaveAllRooms (mem_ops ord) pid r)))
    \<and> (no_empty_room (InMemory_lookup r) \<longrightarrow>
        no_empty_room (InMemory_lookup (snd (RoomService_JoinRoom (mem_ops ord) code p password r)))
        \<and> no_empty_room (InMemory_lookup (snd (RoomService_LeaveRoom (mem_ops ord) code pid r)))
        \<and> no_empty_room (InMemory_lookup (snd (RoomService_LeaveAllRooms (mem_ops ord) pid r))))"
proof -
  have all: "InMemory_lookup (snd (RoomService_LeaveAllRooms (mem_ops ord) pid r)) =
      store_leave_all pid (InMemory_lookup r)"
    using service.LeaveAllRooms_refines [OF inv, of ord pid] by metis
  show ?thesis
    using wf
    by (simp add: all service.CreateRoom_refines(2) [OF inv] service.JoinRoom_refines(2) [OF inv]
        service.LeaveRoom_refines(2) [OF inv] store_create_keeps store_join_keeps store_leave_keeps
        store_leave_all_keeps)
qed

theorem use_cases_keep_store_invariants_witness:
  "store_wf (InMemory_lookup (snd (RoomService_LeaveRoom (mem_ops stored_order) ''000042'' ''p_1'' demo_store)))"
proof -
  have "store_wf (InMemory_lookup demo_store)"
    by (auto simp: store_wf_def InMemory_lookup_def demo_store_def demo_room_def room_wf_def
        split: if_splits)
  then show ?thesis
    using use_cases_keep_store_invariants [OF demo_store_invar] by blast
qed

text \<open>When a join succeeds, and what it does to the membership of every room.\<close>

definition may_join :: "RoomCode \<Rightarrow> Participant \<Rightarrow> RoomSecret option \<Rightarrow> store \<Rightarrow> bool" where
  "may_join code p password m \<longleftrightarrow>
     (case m code of None \<Rightarrow> False
      | Some room \<Rightarrow> GetId p \<notin> member_ids room \<and> admits password room)"

lemma IsOk_store_join: "IsOk (fst (store_join code p password m)) \<longleftrightarrow> may_join code p password m"
  by (simp add: store_join_def may_join_def split: option.splits)

lemma dom_store_join: "dom (snd (store_join code p password m)) = dom m"
  by (auto simp: store_join_def split: option.splits if_splits)

lemma in_store_join:
  "in_store x c (snd (store_join code p password m)) \<longleftrightarrow>
     in_store x c m \<or> (x = GetId p \<and> c = code \<and> may_join code p password m)"
  by (auto simp: store_join_def may_join_def in_store_def member_ids_def split: option.splits)

lemma may_join_store_join:
  "GetId p \<noteq> GetId q \<Longrightarrow>
     may_join code q w (snd (store_join code p v m)) \<longleftrightarrow> may_join code q w m"
  by (auto simp: store_join_def may_join_def member_ids_def admits_def split: option.splits)

text \<open>
  No lost update between two joins: when two different participants join the same room, in
  one order or in the other, each of them is let in or refused alike, and both orders end with
  the same rooms and the same members in every room.
\<close>

theorem joins_commute:
  assumes inv: "InMemory_invar r" and other: "GetId p \<noteq> GetId q"
    and p1: "RoomService_JoinRoom (mem_ops ord) code p v r = (res_p, r1)"
    and q1: "RoomService_JoinRoom (mem_ops ord) code q w r1 = (res_q, pq)"
    and q2: "RoomService_JoinRoom (mem_ops ord) code q w r = (res_q', r2)"
    and p2: "RoomService_JoinRoom (mem_ops ord) code p v r2 = (res_p', qp)"
  shows "IsOk res_p = IsOk res_p' \<and> IsOk res_q = IsOk res_q'
    \<and> dom (InMemory_lookup pq) = dom (InMemory_lookup qp)
    \<and> (\<forall>x c. in_store x c (InMemory_lookup pq) = in_store x c (InMemory_lookup qp))"
proof -
  note ref = service.JoinRoom_refines
  have inv1: "InMemory_invar r1" and inv2: "InMemory_invar r2"
    using ref(3) [OF inv, of ord code p v] ref(3) [OF inv, of ord code q w] p1 q2 by simp_all
  have "store_join code p v (InMemory_lookup r) = (res_p, InMemory_lookup r1)"
    "store_join code q w (InMemory_lookup r1) = (res_q, InMemory_lookup pq)"
    "store_join code q w (InMemory_lookup r) = (res_q', InMemory_lookup r2)"
    "store_join code p v (InMemory_lookup r2) = (res_p', InMemory_lookup qp)"
    using ref(1,2) [OF inv, of ord code p v] ref(1,2) [OF inv1, of ord code q w]
      ref(1,2) [OF inv, of ord code q w] ref(1,2) [OF inv2, of ord code p v] p1 q1 q2 p2
    by (simp_all add: prod_eq_iff)
  then have res: "res_p = fst (store_join code p v (InMemory_lookup r))"
      "res_q = fst (store_join code q w (InMemory_lookup r1))"
      "res_q' = fst (store_join code q w (InMemory_lookup r))"
      "res_p' = fst (store_join code p v (InMemory_lookup r2))"
    and maps: "InMemory_lookup pq = snd (store_join code q w (InMemory_lookup r1))"
      "InMemory_lookup qp = snd (store_join code p v (InMemory_lookup r2))"
      "InMemory_lookup r1 = snd (store_join code p v (InMemory_lookup r))"
      "InMemory_lookup r2 = snd (store_join code q w (InMemory_lookup r))"
    by simp_all
  show ?thesis
    unfolding res maps
    using other other [symmetric]
    by (auto simp: IsOk_store_join dom_store_join in_store_join may_join_store_join)
qed

theorem joins_commute_witness:
  "\<exists>r1 res pq. RoomService_JoinRoom (mem_ops stored_order) ''000007'' \<lparr>GetId = ''p_2'', GetName = ''Bob''\<rparr> None demo_store
        = (Ok (ParticipantJoinedRoom ''000007'' \<lparr>GetId = ''p_2'', GetName = ''Bob''\<rparr>
                 [\<lparr>GetId = ''p_2'', GetName = ''Bob''\<rparr>]), r1)
     \<and> RoomService_JoinRoom (mem_ops stored_order) ''000007'' \<lparr>GetId = ''p_3'', GetName = ''Cy''\<rparr> None r1 = (res, pq)
     \<and> IsOk res"
proof -
  let ?p = "\<lparr>GetId = ''p_2'', GetName = ''Bob''\<rparr>" and ?q = "\<lparr>GetId = ''p_3'', GetName = ''Cy''\<rparr>"
  let ?join = "\<lambda>p r. RoomService_JoinRoom (mem_ops stored_order) ''000007'' p None r"
  obtain res_p r1 res_q pq res_q' r2 res_p' qp where runs:
    "?join ?p demo_store = (res_p, r1)" "?join ?q r1 = (res_q, pq)"
    "?join ?q demo_store = (res_q', r2)" "?join ?p r2 = (res_p', qp)"
    by (metis surj_pair)
  have ok: "fst (?join p demo_store) = Ok (ParticipantJoinedRoom ''000007'' p [p])" for p
    by (simp add: service.JoinRoom_refines demo_store_invar)
      (simp add: store_join_def InMemory_lookup_def demo_store_def member_ids_def admits_def)
  have "IsOk res_q"
    using joins_commute [OF demo_store_invar _ runs] ok [of ?q] runs(3) by simp
  with runs ok [of ?p] show ?thesis by simp
qed

text \<open>
  C35. When the repository throws after the lambda has run and nothing was stored, the two
  callers disagree: \<^verbatim>\<open>JoinRoom\<close> reports an internal error, but \<^verbatim>\<open>LeaveRoom\<close>, whose
  catch block does not return, reports that the participant has left although the stored room
  is unchanged.
\<close>

theorem LeaveRoom_reports_lost_commit:
  assumes leave: "Update ops code (leave_updater pid) no_captures r = (Inl ex, c, r)"
    and ran: "leave_result c = Some Left"
    and cleanup: "RemoveIfEmpty ops code r = (Inr kept, r)"
    and join: "Update ops code (join_updater p password) no_captures r = (Inl ex, d, r)"
  shows "RoomService_LeaveRoom ops code pid r =
      (Ok (ParticipantLeftRoom code pid (captured_participants c)), r)
    \<and> RoomService_JoinRoom ops code p password r = (Err BuildInternalError, r)"
  using assms by (simp add: RoomService_LeaveRoom_def RoomService_JoinRoom_def)

text \<open>A repository whose final copy assignment fails for lack of memory.\<close>

definition failing_commit :: "(InMemoryRoomRepository, UpdateCaptures) RoomRepository" where
  "failing_commit = (mem_ops stored_order)\<lparr>Update := (\<lambda>code f c r.
     case InMemory_lookup r code of
       None \<Rightarrow> (Inr UpdateNotFound, c, r)
     | Some room \<Rightarrow> (Inl (other_exception ''std::bad_alloc''), snd (snd (f room c)), r))\<rparr>"

theorem LeaveRoom_reports_lost_commit_witness:
  "RoomService_LeaveRoom failing_commit ''000042'' ''p_1'' demo_store =
     (Ok (ParticipantLeftRoom ''000042'' ''p_1'' []), demo_store)
   \<and> in_store ''p_1'' ''000042'' (InMemory_lookup demo_store)"
proof -
  have member: "in_store ''p_1'' ''000042'' (InMemory_lookup demo_store)"
    by (simp add: in_store_def InMemory_lookup_def demo_store_def demo_room_def member_ids_def)
  show ?thesis
    using member LeaveRoom_reports_lost_commit [of failing_commit "''000042''" "''p_1''" demo_store
      "other_exception ''std::bad_alloc''" "\<lparr>join_result = None, leave_result = Some Left,
        captured_participants = []\<rparr>" NotEmpty "\<lparr>GetId = ''p_2'', GetName = ''Bob''\<rparr>" None]
    by (simp add: failing_commit_def leave_updater_def join_updater_def RemoveParticipant_def
        member_ids_def InMemory_lookup_def demo_store_def demo_room_def InMemory_RemoveIfEmpty_def
        IsEmpty_def no_captures_def case_prod_beta Let_def)
qed

end
