(* ===== verification/Dispatcher.thy ===== *)
theory Dispatcher
  imports Service
begin

text \<open>
  The typed protocol and its router: include/buzzweb/app/ControlDispatcher.hpp and
  src/app/ControlDispatcher.cpp. A JSON value that is only passed on (the data of a signaling
  message) has type \<open>'j\<close>.

  \<^verbatim>\<open>Dispatch\<close> hands its result to a callback. The callback is a function on a state of its own
  (\<open>'h\<close>) that may throw; what is proved about \<^verbatim>\<open>Dispatch\<close> includes how often it is called.
\<close>

section \<open>Messages\<close>

datatype ControlMessageType = CreateRoom | JoinRoom | LeaveRoom | Signaling
datatype SignalingType = Offer | Answer | IceCandidate

datatype 'j CommandType =
    CreateRoomCommand Participant "RoomSecret option"
  | JoinRoomCommand RoomCode Participant "RoomSecret option"
  | LeaveRoomCommand RoomCode ParticipantId
  | SignalingCommand SignalingType RoomCode ParticipantId ParticipantId 'j

record RequestMeta =
  meta_type :: ControlMessageType
  request_id :: "string option"
  signaling_type :: "SignalingType option"

record 'j ControlDispatcherRequest =
  meta :: RequestMeta
  command :: "'j CommandType"

datatype 'j SuccessResponsePayload =
    CreateRoomResponse RoomCode Participant "Participant list"
  | JoinRoomResponse RoomCode Participant "Participant list"
  | LeaveRoomResponse RoomCode
  | SignalingResponse SignalingType RoomCode ParticipantId ParticipantId 'j

datatype ErrorResponsePayload =
    RoomAlreadyExistsResponse
  | RoomCodeGenerationFailedResponse
  | NotInRoomResponse
  | AlreadyInRoomResponse
  | WrongPasswordResponse
  | PasswordNotProvidedResponse
  | RoomNotFoundResponse
  | ParticipantUnavailableResponse
  | InternalErrorResponse
  | UnexpectedErrorResponse

datatype 'j ControlDispatcherResponse =
    SuccessResponse RequestMeta "'j SuccessResponsePayload"
  | ErrorResponse RequestMeta ErrorResponsePayload

datatype ControlDispatcherEvent =
    JoinedRoomEvent RoomCode Participant "Participant list"
  | LeftRoomEvent RoomCode ParticipantId "Participant list"

record 'j ControlDispatcherResult =
  response :: "'j ControlDispatcherResponse"
  events :: "ControlDispatcherEvent list"

type_synonym ('j, 'h) Handler = "'j ControlDispatcherResult \<Rightarrow> 'h \<Rightarrow> exn option \<times> 'h"

fun response_meta :: "'j ControlDispatcherResponse \<Rightarrow> RequestMeta" where
  "response_meta (SuccessResponse m p) = m"
| "response_meta (ErrorResponse m p) = m"

fun is_success :: "'j ControlDispatcherResponse \<Rightarrow> bool" where
  "is_success (SuccessResponse m p) = True"
| "is_success (ErrorResponse m p) = False"

section \<open>The dispatcher\<close>

definition MapServiceError :: "RoomServiceError \<Rightarrow> ErrorResponsePayload" where
  "MapServiceError error =
     (case err_type error of
        WrongPassword \<Rightarrow> WrongPasswordResponse
      | RoomNotFound \<Rightarrow> RoomNotFoundResponse
      | RoomCodeGenerationFailed \<Rightarrow> RoomCodeGenerationFailedResponse
      | ParticipantUnavailable \<Rightarrow> ParticipantUnavailableResponse
      | RoomServiceErrorType.NotInRoom \<Rightarrow> NotInRoomResponse
      | AlreadyJoined \<Rightarrow> AlreadyInRoomResponse
      | RoomAlreadyExists \<Rightarrow> RoomAlreadyExistsResponse
      | PasswordNotProvided \<Rightarrow> PasswordNotProvidedResponse
      | InternalError \<Rightarrow> InternalErrorResponse)"

definition error_result :: "RequestMeta \<Rightarrow> ErrorResponsePayload \<Rightarrow> 'j ControlDispatcherResult" where
  "error_result m payload = \<lparr>response = ErrorResponse m payload, events = []\<rparr>"

definition success_result ::
  "RequestMeta \<Rightarrow> 'j SuccessResponsePayload \<Rightarrow> ControlDispatcherEvent list \<Rightarrow> 'j ControlDispatcherResult"
where
  "success_result m payload evs = \<lparr>response = SuccessResponse m payload, events = evs\<rparr>"

text \<open>
  The branches of the \<^verbatim>\<open>switch\<close>: each ends with one call of the callback; these functions
  compute its argument, or the exception thrown before it. \<^verbatim>\<open>std::get\<close> throws when the command
  is not the alternative that the message type names.
\<close>

definition dispatch_create ::
  "('r, UpdateCaptures) RoomRepository \<Rightarrow> (nat \<Rightarrow> nat) \<Rightarrow> 'j ControlDispatcherRequest \<Rightarrow> 'r
     \<Rightarrow> (exn + 'j ControlDispatcherResult) \<times> 'r"
where
  "dispatch_create ops draws request r =
     (case command request of
        CreateRoomCommand participant password \<Rightarrow>
          (case RoomService_CreateRoom ops password draws r of
             (Err e, r') \<Rightarrow> (Inr (error_result (meta request) (MapServiceError e)), r')
           | (Ok room, r') \<Rightarrow>
               (case RoomService_JoinRoom ops (GetCode room) participant password r' of
                  (Err e, r'') \<Rightarrow> (Inr (error_result (meta request) (MapServiceError e)), r'')
                | (Ok (ParticipantJoinedRoom code p ps), r'') \<Rightarrow>
                    (Inr (success_result (meta request) (CreateRoomResponse code p ps) []), r'')))
      | _ \<Rightarrow> (Inl bad_variant_access, r))"

definition dispatch_join ::
  "('r, UpdateCaptures) RoomRepository \<Rightarrow> 'j ControlDispatcherRequest \<Rightarrow> 'r
     \<Rightarrow> (exn + 'j ControlDispatcherResult) \<times> 'r"
where
  "dispatch_join ops request r =
     (case command request of
        JoinRoomCommand room_code participant password \<Rightarrow>
          (case RoomService_JoinRoom ops room_code participant password r of
             (Err e, r') \<Rightarrow> (Inr (error_result (meta request) (MapServiceError e)), r')
           | (Ok (ParticipantJoinedRoom code p ps), r') \<Rightarrow>
               (Inr (success_result (meta request) (JoinRoomResponse code p ps)
                       [JoinedRoomEvent code p ps]), r'))
      | _ \<Rightarrow> (Inl bad_variant_access, r))"

definition dispatch_leave ::
  "('r, UpdateCaptures) RoomRepository \<Rightarrow> 'j ControlDispatcherRequest \<Rightarrow> 'r
     \<Rightarrow> (exn + 'j ControlDispatcherResult) \<times> 'r"
where
  "dispatch_leave ops request r =
     (case command request of
        LeaveRoomCommand room_code pid \<Rightarrow>
          (case RoomService_LeaveRoom ops room_code pid r of
             (Err e, r') \<Rightarrow> (Inr (error_result (meta request) (MapServiceError e)), r')
           | (Ok (ParticipantLeftRoom code p rest), r') \<Rightarrow>
               (Inr (success_result (meta request) (LeaveRoomResponse code)
                       [LeftRoomEvent code p rest]), r'))
      | _ \<Rightarrow> (Inl bad_variant_access, r))"

text \<open>The second membership test is made only when the first one holds.\<close>

definition dispatch_signaling ::
  "('r, UpdateCaptures) RoomRepository \<Rightarrow> 'j ControlDispatcherRequest \<Rightarrow> 'r
     \<Rightarrow> (exn + 'j ControlDispatcherResult) \<times> 'r"
where
  "dispatch_signaling ops request r =
     (case command request of
        SignalingCommand ty code from target data \<Rightarrow>
          (andThen (RoomService_ParticipantInRoom ops from code r) (\<lambda>from_in.
             andThen (if \<not> from_in then Inr True
                      else andThen (RoomService_ParticipantInRoom ops target code r)
                             (\<lambda>target_in. Inr (\<not> target_in)))
               (\<lambda>outside.
                 if outside then Inr (error_result (meta request) NotInRoomResponse)
                 else Inr (success_result (meta request)
                             (SignalingResponse ty code from target data) []))), r)
      | _ \<Rightarrow> (Inl bad_variant_access, r))"

definition dispatch_switch ::
  "('r, UpdateCaptures) RoomRepository \<Rightarrow> (nat \<Rightarrow> nat) \<Rightarrow> 'j ControlDispatcherRequest \<Rightarrow> 'r
     \<Rightarrow> (exn + 'j ControlDispatcherResult) \<times> 'r"
where
  "dispatch_switch ops draws request r =
     (case meta_type (meta request) of
        CreateRoom \<Rightarrow> dispatch_create ops draws request r
      | JoinRoom \<Rightarrow> dispatch_join ops request r
      | LeaveRoom \<Rightarrow> dispatch_leave ops request r
      | Signaling \<Rightarrow> dispatch_signaling ops request r)"

text \<open>
  The callback is called inside the \<^verbatim>\<open>try\<close> block: an exception it throws is caught as well,
  and the catch block calls it again with an internal error. An exception of that second call
  leaves \<^verbatim>\<open>Dispatch\<close>.
\<close>

definition Dispatch ::
  "('r, UpdateCaptures) RoomRepository \<Rightarrow> (nat \<Rightarrow> nat) \<Rightarrow> 'j ControlDispatcherRequest
     \<Rightarrow> ('j, 'h) Handler option \<Rightarrow> 'r \<Rightarrow> 'h \<Rightarrow> exn option \<times> 'r \<times> 'h"
where
  "Dispatch ops draws request handler r h =
     (case handler of
        None \<Rightarrow> (None, r, h)
      | Some call \<Rightarrow>
          (let send_internal = call (error_result (meta request) InternalErrorResponse)
           in case dispatch_switch ops draws request r of
                (Inl ex, r') \<Rightarrow> (let (out, h') = send_internal h in (out, r', h'))
              | (Inr result, r') \<Rightarrow>
                  (case call result h of
                     (None, h') \<Rightarrow> (None, r', h')
                   | (Some ex, h') \<Rightarrow> (let (out, h'') = send_internal h' in (out, r', h'')))))"

definition left_events :: "ParticipantsLeftRoomResults \<Rightarrow> ControlDispatcherEvent list" where
  "left_events results =
     concat (map (\<lambda>res. case res of
         Err e \<Rightarrow> []
       | Ok (ParticipantLeftRoom code pid rest) \<Rightarrow> [LeftRoomEvent code pid rest]) results)"

definition HandleParticipantDisconnected ::
  "('r, UpdateCaptures) RoomRepository \<Rightarrow> ParticipantId \<Rightarrow> 'r
     \<Rightarrow> (exn + ControlDispatcherEvent list) \<times> 'r"
where
  "HandleParticipantDisconnected ops pid r =
     (case RoomService_LeaveAllRooms ops pid r of
        (Inl ex, r') \<Rightarrow> (Inl ex, r')
      | (Inr results, r') \<Rightarrow> (Inr (left_events results), r'))"

lemmas dispatch_defs =
  dispatch_create_def dispatch_join_def dispatch_leave_def dispatch_signaling_def dispatch_switch_def

lemma result_sel [simp]:
  "response (error_result m e) = ErrorResponse m e" "events (error_result m e) = []"
  "response (success_result m p evs) = SuccessResponse m p" "events (success_result m p evs) = evs"
  by (simp_all add: error_result_def success_result_def)

section \<open>Lemmas\<close>

text \<open>Every response carries the metadata of its request.\<close>

lemma dispatch_switch_meta:
  "fst (dispatch_switch ops draws request r) = Inr result \<Longrightarrow>
     response_meta (response result) = meta request"
  by (auto simp: dispatch_defs andThen_Inr_iff split: ControlMessageType.splits CommandType.splits
      prod.splits Result.splits ParticipantJoinedRoom.splits ParticipantLeftRoom.splits if_splits)

text \<open>Does the command have the shape that the message type announces?\<close>

fun command_matches :: "ControlMessageType \<Rightarrow> 'j CommandType \<Rightarrow> bool" where
  "command_matches CreateRoom (CreateRoomCommand p s) = True"
| "command_matches JoinRoom (JoinRoomCommand c p s) = True"
| "command_matches LeaveRoom (LeaveRoomCommand c p) = True"
| "command_matches Signaling (SignalingCommand t c f g d) = True"
| "command_matches _ _ = False"

lemma dispatch_switch_mismatch:
  "\<not> command_matches (meta_type (meta request)) (command request) \<Longrightarrow>
     dispatch_switch ops draws request r = (Inl bad_variant_access, r)"
  by (cases "meta_type (meta request)"; cases "command request")
    (simp_all add: dispatch_defs)

lemma left_events_Ok:
  "left_events (map Ok ds) =
     map (\<lambda>d. case d of ParticipantLeftRoom code pid rest \<Rightarrow> LeftRoomEvent code pid rest) ds"
  by (induction ds) (auto simp: left_events_def split: ParticipantLeftRoom.splits)

lemma left_events_departures:
  "left_events (map Ok (departures pid m codes)) =
     map (\<lambda>code. LeftRoomEvent code pid (remaining pid m code))
       (filter (\<lambda>code. in_store pid code m) codes)"
  by (simp only: left_events_Ok) (simp add: departures_def)

section \<open>Specification on the map of rooms\<close>

text \<open>
  What a request means on the map of rooms: the result handed to the callback and the new map.
\<close>

fun store_dispatch ::
  "(nat \<Rightarrow> nat) \<Rightarrow> RequestMeta \<Rightarrow> 'j CommandType \<Rightarrow> store \<Rightarrow> 'j ControlDispatcherResult \<times> store"
where
  "store_dispatch draws mt (CreateRoomCommand p password) m =
     (case find (\<lambda>i. m (GenerateRoomCode (draws i)) = None) [0..<max_attempts] of
        None \<Rightarrow> (error_result mt RoomCodeGenerationFailedResponse, m)
      | Some i \<Rightarrow>
          (let code = GenerateRoomCode (draws i)
           in (success_result mt (CreateRoomResponse code p [p]) [],
               m(code \<mapsto> \<lparr>GetCode = code, room_secret = password, GetParticipants = [p]\<rparr>))))"
| "store_dispatch draws mt (JoinRoomCommand code p password) m =
     (case store_join code p password m of
        (Err e, m') \<Rightarrow> (error_result mt (MapServiceError e), m')
      | (Ok (ParticipantJoinedRoom c q ps), m') \<Rightarrow>
          (success_result mt (JoinRoomResponse c q ps) [JoinedRoomEvent c q ps], m'))"
| "store_dispatch draws mt (LeaveRoomCommand code pid) m =
     (case store_leave code pid m of
        (Err e, m') \<Rightarrow> (error_result mt (MapServiceError e), m')
      | (Ok (ParticipantLeftRoom c q rest), m') \<Rightarrow>
          (success_result mt (LeaveRoomResponse c) [LeftRoomEvent c q rest], m'))"
| "store_dispatch draws mt (SignalingCommand ty code from target data) m =
     (if in_store from code m \<and> in_store target code m
      then (success_result mt (SignalingResponse ty code from target data) [], m)
      else (error_result mt NotInRoomResponse, m))"

lemma store_dispatch_keeps:
  assumes "store_wf m"
  shows "store_wf (snd (store_dispatch draws mt cmd m))"
  using assms store_join_keeps(1) [OF assms] store_leave_keeps(1) [OF assms]
  by (cases cmd)
    (auto simp: store_wf_def room_wf_def Let_def split: option.splits prod.splits Result.splits
      ParticipantJoinedRoom.splits ParticipantLeftRoom.splits, (metis snd_conv)+)

lemma store_dispatch_no_empty:
  assumes "no_empty_room m"
  shows "no_empty_room (snd (store_dispatch draws mt cmd m))"
  using assms store_join_keeps(2) [OF assms] store_leave_keeps(2) [OF assms]
  by (cases cmd)
    (auto simp: no_empty_room_def IsEmpty_def Let_def split: option.splits prod.splits Result.splits
      ParticipantJoinedRoom.splits ParticipantLeftRoom.splits, (metis snd_conv)+)

lemma store_dispatch_response:
  "response_meta (response (fst (store_dispatch draws mt cmd m))) = mt"
  "response (fst (store_dispatch draws mt cmd m)) = SuccessResponse mt' (SignalingResponse ty code sender target data)
     \<Longrightarrow> events (fst (store_dispatch draws mt cmd m)) = []"
  by (cases cmd; auto simp: Let_def split: option.splits prod.splits Result.splits
      ParticipantJoinedRoom.splits ParticipantLeftRoom.splits if_splits)+

lemma store_join_new:
  "store_join code p password (m(code \<mapsto> Room_new code password)) =
     (Ok (ParticipantJoinedRoom code p [p]),
      m(code \<mapsto> \<lparr>GetCode = code, room_secret = password, GetParticipants = [p]\<rparr>))"
  by (simp add: store_join_def admits_def Room_new_def member_ids_def)

context room_service begin

lemma dispatch_create_refines:
  assumes "invar r" and "command request = CreateRoomCommand p password"
  shows "fst (dispatch_create ops draws request r) =
      Inr (fst (store_dispatch draws (meta request) (command request) (lookup r)))
    \<and> lookup (snd (dispatch_create ops draws request r)) =
      snd (store_dispatch draws (meta request) (command request) (lookup r))
    \<and> invar (snd (dispatch_create ops draws request r))"
proof -
  obtain res r1 where c: "RoomService_CreateRoom ops password draws r = (res, r1)"
    by (cases "RoomService_CreateRoom ops password draws r")
  note create = CreateRoom_refines [OF assms(1), of password draws, unfolded c fst_conv snd_conv]
  show ?thesis
  proof (cases "find (\<lambda>i. lookup r (GenerateRoomCode (draws i)) = None) [0..<max_attempts]")
    case None
    then have "res = Err BuildRoomCodeGenerationFailedError" "lookup r1 = lookup r"
      using create by (simp_all add: store_create_def)
    with None c create(3) assms(2) show ?thesis
      by (simp add: dispatch_create_def MapServiceError_def BuildRoomCodeGenerationFailedError_def)
  next
    case (Some i)
    let ?code = "GenerateRoomCode (draws i)"
    have res: "res = Ok (Room_new ?code password)"
      and r1: "lookup r1 = (lookup r)(?code \<mapsto> Room_new ?code password)"
      using Some create by (simp_all add: store_create_def Let_def)
    obtain res2 r2 where j: "RoomService_JoinRoom ops ?code p password r1 = (res2, r2)"
      by (cases "RoomService_JoinRoom ops ?code p password r1")
    note join = JoinRoom_refines [OF create(3), of ?code p password, unfolded j fst_conv snd_conv
        r1 store_join_new]
    with Some c j res assms(2) show ?thesis
      by (simp add: dispatch_create_def Let_def)
  qed
qed

lemma dispatch_switch_refines:
  assumes "invar r" and "command_matches (meta_type (meta request)) (command request)"
  shows "fst (dispatch_switch ops draws request r) =
      Inr (fst (store_dispatch draws (meta request) (command request) (lookup r)))
    \<and> lookup (snd (dispatch_switch ops draws request r)) =
      snd (store_dispatch draws (meta request) (command request) (lookup r))
    \<and> invar (snd (dispatch_switch ops draws request r))"
proof (cases "command request")
  case (CreateRoomCommand p password)
  with assms dispatch_create_refines [OF assms(1) CreateRoomCommand, of draws] show ?thesis
    by (cases "meta_type (meta request)") (simp_all add: dispatch_switch_def)
next
  case (JoinRoomCommand code p password)
  have "dispatch_switch ops draws request r = dispatch_join ops request r"
    using assms(2) JoinRoomCommand by (cases "meta_type (meta request)") (simp_all add: dispatch_switch_def)
  with JoinRoomCommand JoinRoom_refines [OF assms(1), of code p password] show ?thesis
    by (auto simp: dispatch_join_def split: prod.splits Result.splits ParticipantJoinedRoom.splits)
next
  case (LeaveRoomCommand code pid)
  have "dispatch_switch ops draws request r = dispatch_leave ops request r"
    using assms(2) LeaveRoomCommand by (cases "meta_type (meta request)") (simp_all add: dispatch_switch_def)
  with LeaveRoomCommand LeaveRoom_refines [OF assms(1), of code pid] show ?thesis
    by (auto simp: dispatch_leave_def split: prod.splits Result.splits ParticipantLeftRoom.splits)
next
  case (SignalingCommand ty code sender target data)
  have "dispatch_switch ops draws request r = dispatch_signaling ops request r"
    using assms(2) SignalingCommand by (cases "meta_type (meta request)") (simp_all add: dispatch_switch_def)
  with SignalingCommand assms(1) show ?thesis
    by (simp add: dispatch_signaling_def RoomService_ParticipantInRoom_def member_result)
qed

lemma dispatch_switch_keeps:
  assumes "invar r" and "store_wf (lookup r)" and "no_empty_room (lookup r)"
  shows "invar (snd (dispatch_switch ops draws request r))
    \<and> store_wf (lookup (snd (dispatch_switch ops draws request r)))
    \<and> no_empty_room (lookup (snd (dispatch_switch ops draws request r)))"
proof (cases "command_matches (meta_type (meta request)) (command request)")
  case True
  with dispatch_switch_refines [OF assms(1) True, of draws] assms(2,3) show ?thesis
    by (simp add: store_dispatch_keeps store_dispatch_no_empty)
qed (simp add: dispatch_switch_mismatch assms)

lemma Dispatch_state:
  "fst (snd (Dispatch ops draws request handler r h)) =
     (case handler of None \<Rightarrow> r | Some _ \<Rightarrow> snd (dispatch_switch ops draws request r))"
  by (auto simp: Dispatch_def Let_def split: option.splits prod.splits sum.splits)

lemma Disconnected_refines:
  assumes "invar r"
  obtains codes where "distinct codes" and "set codes = dom (lookup r)"
    and "fst (HandleParticipantDisconnected ops pid r) =
      Inr (map (\<lambda>code. LeftRoomEvent code pid (remaining pid (lookup r) code))
        (filter (\<lambda>code. in_store pid code (lookup r)) codes))"
    and "lookup (snd (HandleParticipantDisconnected ops pid r)) = store_leave_all pid (lookup r)"
    and "invar (snd (HandleParticipantDisconnected ops pid r))"
proof -
  obtain codes where c: "distinct codes" "set codes = dom (lookup r)"
    "fst (RoomService_LeaveAllRooms ops pid r) = Inr (map Ok (departures pid (lookup r) codes))"
    "lookup (snd (RoomService_LeaveAllRooms ops pid r)) = store_leave_all pid (lookup r)"
    "invar (snd (RoomService_LeaveAllRooms ops pid r))"
    using LeaveAllRooms_refines [OF assms] by metis
  show ?thesis
    by (rule that [of codes])
      (use c in \<open>auto simp: HandleParticipantDisconnected_def left_events_departures
          split: prod.splits sum.splits\<close>)
qed

end

section \<open>Properties of the dispatcher\<close>

text \<open>
  C15. A well-formed request is carried out as its specification says: the callback gets the
  specified response and events, with the metadata of the request, and the repository holds the
  specified rooms. In particular creating a room always ends with the creator as its only member
  (the join that follows the creation cannot fail), unless no free code was found.
\<close>

theorem Dispatch_refines_store_dispatch:
  assumes inv: "InMemory_invar r"
    and shape: "command_matches (meta_type (meta request)) (command request)"
    and quiet: "\<forall>res h. fst (call res h) = None"
  shows "\<exists>r'. Dispatch (mem_ops ord) draws request (Some call) r h =
      (None, r', snd (call (fst (store_dispatch draws (meta request) (command request) (InMemory_lookup r))) h))
    \<and> InMemory_lookup r' = snd (store_dispatch draws (meta request) (command request) (InMemory_lookup r))
    \<and> InMemory_invar r'"
proof -
  obtain res r' where sw: "dispatch_switch (mem_ops ord) draws request r = (res, r')"
    by (cases "dispatch_switch (mem_ops ord) draws request r")
  note ref = service.dispatch_switch_refines [OF inv shape, of ord draws, unfolded sw fst_conv snd_conv]
  obtain h' where "call (fst (store_dispatch draws (meta request) (command request) (InMemory_lookup r))) h
      = (None, h')"
    using quiet by (metis prod.collapse)
  with sw ref show ?thesis by (simp add: Dispatch_def)
qed

definition demo_request :: "unit ControlDispatcherRequest" where
  "demo_request = \<lparr>meta = \<lparr>meta_type = CreateRoom, request_id = Some ''r1'', signaling_type = None\<rparr>,
     command = CreateRoomCommand \<lparr>GetId = ''p_9'', GetName = ''Eve''\<rparr> (Some ''pw'')\<rparr>"

theorem Dispatch_refines_store_dispatch_witness:
  "\<exists>r' i. Dispatch (mem_ops stored_order) (\<lambda>i. i) demo_request
        (Some (\<lambda>res log. (None, log @ [res]))) InMemory_new [] =
      (None, r', [success_result (meta demo_request)
         (CreateRoomResponse (GenerateRoomCode i) \<lparr>GetId = ''p_9'', GetName = ''Eve''\<rparr>
            [\<lparr>GetId = ''p_9'', GetName = ''Eve''\<rparr>]) []])"
proof -
  have attempts: "[0..<max_attempts] = 0 # [1..<max_attempts]"
    by (simp add: max_attempts_def upt_conv_Cons)
  have "fst (store_dispatch (\<lambda>i. i) (meta demo_request) (command demo_request) Map.empty) =
    success_result (meta demo_request)
         (CreateRoomResponse (GenerateRoomCode 0) \<lparr>GetId = ''p_9'', GetName = ''Eve''\<rparr>
            [\<lparr>GetId = ''p_9'', GetName = ''Eve''\<rparr>]) []"
    by (simp add: demo_request_def attempts Let_def)
  then show ?thesis
    using Dispatch_refines_store_dispatch [OF InMemory_new_ok(1), of demo_request
        "\<lambda>res log. (None, log @ [res])" stored_order "\<lambda>i. i" "[]"]
    by (auto simp: demo_request_def)
qed

text \<open>
  Whatever request arrives, well-formed or not, and whatever the callback does, even when it
  throws, the repository keeps its invariants: one entry per code, every room under its own code
  with distinct members, and no empty room.
\<close>

theorem Dispatch_keeps_invariants:
  assumes "InMemory_invar r" and "store_wf (InMemory_lookup r)" and "no_empty_room (InMemory_lookup r)"
    and "Dispatch (mem_ops ord) draws request handler r h = (out, r', h')"
  shows "InMemory_invar r' \<and> store_wf (InMemory_lookup r') \<and> no_empty_room (InMemory_lookup r')"
proof -
  have "r' = (case handler of None \<Rightarrow> r | Some _ \<Rightarrow> snd (dispatch_switch (mem_ops ord) draws request r))"
    using service.Dispatch_state [of ord draws request handler r h] assms(4) by simp
  then show ?thesis
    using assms(1,2,3) service.dispatch_switch_keeps [OF assms(1,2,3), of ord draws request]
    by (cases handler) simp_all
qed

theorem Dispatch_keeps_invariants_witness:
  "\<exists>out r' h'. Dispatch (mem_ops stored_order) (\<lambda>i. i) demo_request
        (Some (\<lambda>res (n::nat). (Some bad_variant_access, Suc n))) InMemory_new 0 = (out, r', h')
     \<and> no_empty_room (InMemory_lookup r')"
proof -
  obtain out r' h' where run: "Dispatch (mem_ops stored_order) (\<lambda>i. i) demo_request
      (Some (\<lambda>res (n::nat). (Some bad_variant_access, Suc n))) InMemory_new 0 = (out, r', h')"
    by (metis prod_cases3)
  then show ?thesis
    using Dispatch_keeps_invariants [OF InMemory_new_ok(1) _ _ run] by simp
qed

text \<open>
  One request, one answer: when the callback does not throw, \<^verbatim>\<open>Dispatch\<close> calls it exactly
  once, with a response that carries the request's own metadata (so its request id), and itself
  does not throw, for every repository, even one that throws.
\<close>

theorem Dispatch_answers_once:
  assumes quiet: "\<forall>res h. fst (call res h) = None"
  shows "\<exists>result r'. Dispatch ops draws request (Some call) r h = (None, r', snd (call result h))
    \<and> response_meta (response result) = meta request"
proof (cases "dispatch_switch ops draws request r")
  case (Pair res r')
  show ?thesis
  proof (cases res)
    case (Inl ex)
    with Pair quiet show ?thesis
      by (intro exI [of _ "error_result (meta request) InternalErrorResponse"] exI [of _ r'])
        (simp add: Dispatch_def case_prod_beta Let_def)
  next
    case (Inr result)
    then have "response_meta (response result) = meta request"
      using dispatch_switch_meta [of ops draws request r] Pair by simp
    moreover obtain h' where "call result h = (None, h')" using quiet by (metis prod.collapse)
    ultimately show ?thesis
      using Pair Inr
      by (intro exI [of _ result] exI [of _ r']) (simp add: Dispatch_def)
  qed
qed

theorem Dispatch_answers_once_witness:
  "\<exists>result r'. Dispatch (mem_ops stored_order) (\<lambda>i. i) demo_request
       (Some (\<lambda>res log. (None, log @ [res]))) InMemory_new [] = (None, r', [result])
     \<and> request_id (response_meta (response result)) = Some ''r1''"
  using Dispatch_answers_once [of "\<lambda>res log. (None, log @ [res])" "mem_ops stored_order" "\<lambda>i. i"
      demo_request InMemory_new "[]"]
  by (auto simp: demo_request_def)

text \<open>
  Signaling is authorised: an offer, answer or candidate is passed on exactly when sender and
  target are both members of the named room at that moment; otherwise the answer is
  \<^verbatim>\<open>not_in_room\<close>. The relayed message is the one received, and no room changes.
\<close>

theorem signaling_only_between_members:
  assumes inv: "InMemory_invar r"
    and sig: "meta_type (meta request) = Signaling"
    and cmd: "command request = SignalingCommand ty code sender target data"
  shows "dispatch_switch (mem_ops ord) draws request r =
    (Inr (if in_store sender code (InMemory_lookup r) \<and> in_store target code (InMemory_lookup r)
          then success_result (meta request) (SignalingResponse ty code sender target data) []
          else error_result (meta request) NotInRoomResponse), r)"
  using assms
  by (simp add: dispatch_switch_def dispatch_signaling_def RoomService_ParticipantInRoom_def
      mem.member_result [simplified])

theorem signaling_only_between_members_witness:
  "dispatch_switch (mem_ops stored_order) (\<lambda>i. i)
     \<lparr>meta = \<lparr>meta_type = Signaling, request_id = None, signaling_type = Some Offer\<rparr>,
      command = SignalingCommand Offer ''000042'' ''p_1'' ''p_2'' ()\<rparr> demo_store
   = (Inr (error_result \<lparr>meta_type = Signaling, request_id = None, signaling_type = Some Offer\<rparr>
        NotInRoomResponse), demo_store)"
proof -
  have out: "\<not> in_store ''p_2'' ''000042'' (InMemory_lookup demo_store)"
    by (simp add: in_store_def InMemory_lookup_def demo_store_def demo_room_def member_ids_def)
  show ?thesis
    by (subst signaling_only_between_members [OF demo_store_invar]) (auto simp: out)
qed

lemma disconnect_events:
  assumes "InMemory_invar r"
  obtains evs where "fst (HandleParticipantDisconnected (mem_ops ord) pid r) = Inr evs" "distinct evs"
    "set evs = {LeftRoomEvent code pid (remaining pid (InMemory_lookup r) code) | code.
       in_store pid code (InMemory_lookup r)}"
    "InMemory_lookup (snd (HandleParticipantDisconnected (mem_ops ord) pid r)) = store_leave_all pid (InMemory_lookup r)"
proof (rule service.Disconnected_refines [OF assms, of ord pid])
  let ?m = "InMemory_lookup r"
  fix codes
  assume c: "distinct codes" "set codes = dom ?m" and
    res: "fst (HandleParticipantDisconnected (mem_ops ord) pid r) =
      Inr (map (\<lambda>code. LeftRoomEvent code pid (remaining pid ?m code)) (filter (\<lambda>code. in_store pid code ?m) codes))"
      "InMemory_lookup (snd (HandleParticipantDisconnected (mem_ops ord) pid r)) = store_leave_all pid ?m"
  have "code \<in> set codes" if "in_store pid code ?m" for code
    using that c(2) by (auto simp: in_store_def split: option.splits)
  with c(1) show thesis
    by (intro that [OF res(1) _ _ res(2)]) (auto simp: distinct_map intro!: inj_onI)
qed

text \<open>
  C31. Disconnecting does not depend on the hash map: whatever the order in which the rooms are
  visited, and however the same rooms are laid out in the repository, the same rooms are left, and
  the same \<^verbatim>\<open>LeftRoomEvent\<close>s are returned, only perhaps in another order: one for each room the
  participant was in, addressed to those who stay there.
\<close>

theorem disconnect_order_irrelevant:
  assumes inv: "InMemory_invar r1" "InMemory_invar r2" and same: "InMemory_lookup r1 = InMemory_lookup r2"
  shows "\<exists>evs1 evs2 r1' r2'. HandleParticipantDisconnected (mem_ops ord1) pid r1 = (Inr evs1, r1')
    \<and> HandleParticipantDisconnected (mem_ops ord2) pid r2 = (Inr evs2, r2')
    \<and> mset evs1 = mset evs2 \<and> InMemory_lookup r1' = InMemory_lookup r2'
    \<and> distinct evs1
    \<and> set evs1 = {LeftRoomEvent code pid (remaining pid (InMemory_lookup r1) code) | code.
         in_store pid code (InMemory_lookup r1)}"
proof -
  obtain evs1 where e1: "fst (HandleParticipantDisconnected (mem_ops ord1) pid r1) = Inr evs1" "distinct evs1"
    "set evs1 = {LeftRoomEvent code pid (remaining pid (InMemory_lookup r1) code) | code.
       in_store pid code (InMemory_lookup r1)}"
    "InMemory_lookup (snd (HandleParticipantDisconnected (mem_ops ord1) pid r1)) = store_leave_all pid (InMemory_lookup r1)"
    by (rule disconnect_events [OF inv(1)])
  obtain evs2 where e2: "fst (HandleParticipantDisconnected (mem_ops ord2) pid r2) = Inr evs2" "distinct evs2"
    "set evs2 = {LeftRoomEvent code pid (remaining pid (InMemory_lookup r2) code) | code.
       in_store pid code (InMemory_lookup r2)}"
    "InMemory_lookup (snd (HandleParticipantDisconnected (mem_ops ord2) pid r2)) = store_leave_all pid (InMemory_lookup r2)"
    by (rule disconnect_events [OF inv(2)])
  have "mset evs1 = mset evs2"
    using e1(2,3) e2(2,3) same by (simp add: set_eq_iff_mset_eq_distinct [symmetric])
  with e1 e2 same show ?thesis
    by (intro exI [of _ evs1] exI [of _ evs2] exI [of _ "snd (HandleParticipantDisconnected (mem_ops ord1) pid r1)"]
        exI [of _ "snd (HandleParticipantDisconnected (mem_ops ord2) pid r2)"]) (simp add: prod_eq_iff)
qed

theorem disconnect_order_irrelevant_witness:
  "\<exists>evs1 evs2 r1' r2'. HandleParticipantDisconnected (mem_ops stored_order) ''p_1'' demo_store = (Inr evs1, r1')
     \<and> HandleParticipantDisconnected (mem_ops reverse_order) ''p_1'' demo_store = (Inr evs2, r2')
     \<and> mset evs1 = mset evs2 \<and> InMemory_lookup r1' = InMemory_lookup r2'"
  using disconnect_order_irrelevant [OF demo_store_invar demo_store_invar refl, of stored_order "''p_1''" reverse_order]
  by (elim exE conjE) (intro exI conjI, assumption+)










end
