(* ===== verification/Json.thy ===== *)
theory Json
  imports Base
begin

text \<open>
  The interface of the JSON library (nlohmann/json, not part of the repository) as far as
  src/app/ProtocolCodec.cpp uses it. The library is a parameter: a record of operations over an
  unknown type \<open>'j\<close> of JSON values. What the codec relies on is stated as the laws of the
  locale \<open>nlohmann_json\<close>, which are the documented behaviour of the operations.
\<close>

section \<open>Operations\<close>

text \<open>
  \<^item> \<open>json_parse\<close> is \<^verbatim>\<open>json::parse\<close>; \<open>None\<close> stands for an exception, which is
    \<^verbatim>\<open>out_of_range\<close> when \<open>number_overflows\<close> holds of the text (it has a number
    too large for a \<^verbatim>\<open>double\<close>) and \<^verbatim>\<open>parse_error\<close> otherwise;
  \<^item> \<open>json_dump\<close> is \<^verbatim>\<open>dump()\<close>; \<open>None\<close> stands for the \<^verbatim>\<open>type_error\<close> thrown for a string
    that is not valid UTF-8;
  \<^item> \<open>json_set\<close> is assignment through \<^verbatim>\<open>operator[]\<close>; \<open>None\<close> stands for the
    \<^verbatim>\<open>type_error\<close> thrown on a value that is neither an object nor null;
  \<^item> \<open>json_at\<close> and \<open>get_string\<close> are \<^verbatim>\<open>at(key)\<close> and \<^verbatim>\<open>get<std::string>()\<close>; the codec
    calls them only after \<^verbatim>\<open>contains(key)\<close> and \<^verbatim>\<open>is_string()\<close>;
  \<^item> \<open>json_object\<close> is the construction from a list of key and value pairs, \<open>empty_array\<close>
    is \<^verbatim>\<open>json::array()\<close>.
\<close>

record 'j json_api =
  json_parse :: "string \<Rightarrow> 'j option"
  number_overflows :: "string \<Rightarrow> bool"
  json_dump :: "'j \<Rightarrow> string option"
  is_object :: "'j \<Rightarrow> bool"
  is_string :: "'j \<Rightarrow> bool"
  is_null :: "'j \<Rightarrow> bool"
  contains :: "'j \<Rightarrow> string \<Rightarrow> bool"
  json_at :: "'j \<Rightarrow> string \<Rightarrow> 'j"
  get_string :: "'j \<Rightarrow> string"
  json_string :: "string \<Rightarrow> 'j"
  json_bool :: "bool \<Rightarrow> 'j"
  json_object :: "(string \<times> 'j) list \<Rightarrow> 'j"
  empty_array :: 'j
  push_back :: "'j \<Rightarrow> 'j \<Rightarrow> 'j"
  json_set :: "'j \<Rightarrow> string \<Rightarrow> 'j \<Rightarrow> 'j option"

definition ascii :: "string \<Rightarrow> bool" where
  "ascii s \<longleftrightarrow> (\<forall>c \<in> set s. (of_char c :: nat) < 128)"

lemma ascii_append [simp]: "ascii (s @ t) \<longleftrightarrow> ascii s \<and> ascii t"
  by (auto simp: ascii_def)

lemma ascii_subset: "set s \<subseteq> set t \<Longrightarrow> ascii t \<Longrightarrow> ascii s"
  by (auto simp: ascii_def)

section \<open>Laws\<close>

text \<open>
  \<open>utf8 s\<close> says that a string is valid UTF-8, \<open>ok j\<close> that a value can be written out (every
  string in it, keys included, is valid UTF-8), \<open>elements\<close> reads an array, \<open>bool_of\<close> a
  boolean.
\<close>

locale nlohmann_json =
  fixes J :: "'j json_api"
    and utf8 :: "string \<Rightarrow> bool"
    and ok :: "'j \<Rightarrow> bool"
    and elements :: "'j \<Rightarrow> 'j list"
    and bool_of :: "'j \<Rightarrow> bool"
  assumes ascii_utf8: "ascii s \<Longrightarrow> utf8 s"
    \<comment> \<open>kinds of values\<close>
    and string_kind: "is_string J (json_string J s)" "\<not> is_null J (json_string J s)"
      "\<not> is_object J (json_string J s)"
    and object_kind: "is_object J (json_object J kvs)" "\<not> is_string J (json_object J kvs)"
      "\<not> is_null J (json_object J kvs)"
    and get_string_of: "get_string J (json_string J s) = s"
    and bool_of_bool: "bool_of (json_bool J b) = b"
    \<comment> \<open>objects\<close>
    and contains_object: "distinct (map fst kvs) \<Longrightarrow>
      contains J (json_object J kvs) k \<longleftrightarrow> k \<in> fst ` set kvs"
    and at_object: "distinct (map fst kvs) \<Longrightarrow> (k, v) \<in> set kvs \<Longrightarrow> json_at J (json_object J kvs) k = v"
    and set_object: "is_object J j \<Longrightarrow>
      \<exists>j'. json_set J j k v = Some j' \<and> is_object J j' \<and> (ok j \<longrightarrow> ok v \<longrightarrow> utf8 k \<longrightarrow> ok j')
        \<and> (\<forall>k'. contains J j' k' \<longleftrightarrow> k' = k \<or> contains J j k') \<and> json_at J j' k = v
        \<and> (\<forall>k'. k' \<noteq> k \<longrightarrow> contains J j k' \<longrightarrow> json_at J j' k' = json_at J j k')"
    \<comment> \<open>arrays\<close>
    and elements_pushed: "elements (foldl (push_back J) (empty_array J) vs) = vs"
    \<comment> \<open>which values can be written\<close>
    and ok_string: "utf8 s \<Longrightarrow> ok (json_string J s)"
    and ok_bool: "ok (json_bool J b)"
    and ok_object: "distinct (map fst kvs) \<Longrightarrow> \<forall>(k, v) \<in> set kvs. utf8 k \<and> ok v \<Longrightarrow> ok (json_object J kvs)"
    and ok_pushed: "\<forall>v \<in> set vs. ok v \<Longrightarrow> ok (foldl (push_back J) (empty_array J) vs)"
    and ok_at: "ok j \<Longrightarrow> contains J j k \<Longrightarrow> ok (json_at J j k)"
    and utf8_get: "ok j \<Longrightarrow> is_string J j \<Longrightarrow> utf8 (get_string J j)"
    \<comment> \<open>reading and writing\<close>
    and parse_ok: "json_parse J text = Some j \<Longrightarrow> ok j"
    and dump_parse: "ok j \<Longrightarrow> \<exists>text. json_dump J j = Some text \<and> json_parse J text = Some j"
begin

text \<open>The library's facts, in the form the codec proofs use them.\<close>

lemmas kinds = string_kind object_kind get_string_of bool_of_bool

lemma utf8_literal: "ascii s \<Longrightarrow> utf8 s" "ascii s \<Longrightarrow> ok (json_string J s)"
  by (simp_all add: ascii_utf8 ok_string)

lemma ok_objectI:
  "distinct (map fst kvs) \<Longrightarrow> (\<And>k v. (k, v) \<in> set kvs \<Longrightarrow> utf8 k \<and> ok v) \<Longrightarrow> ok (json_object J kvs)"
  by (rule ok_object) auto

lemma set_objectE:
  assumes "is_object J j"
  obtains j' where "json_set J j k v = Some j'" "is_object J j'"
    "ok j \<Longrightarrow> ok v \<Longrightarrow> utf8 k \<Longrightarrow> ok j'"
    "\<And>k'. contains J j' k' \<longleftrightarrow> k' = k \<or> contains J j k'" "json_at J j' k = v"
    "\<And>k'. k' \<noteq> k \<Longrightarrow> contains J j k' \<Longrightarrow> json_at J j' k' = json_at J j k'"
  using set_object [OF assms, of k v] by blast

end

end
