(* ===== verification/JsonText.thy ===== *)
theory JsonText
  imports Json
begin

text \<open>
  A model of the JSON library: values as a datatype, a printer in the compact form of
  \<^verbatim>\<open>dump()\<close>, a recursive-descent parser of RFC 8259 texts and the UTF-8 check of RFC 3629. It
  fulfils the laws of the locale \<open>nlohmann_json\<close>, so these laws are consistent, and the codec and
  the server can be run on concrete messages. A number is kept as its text.

  The parser's fuel is the length of its input: every nested call is made after at least one
  character has been read.
\<close>

datatype json =
    JNull
  | JBool bool
  | JNum string
  | JStr string
  | JArr "json list"
  | JObj "(string \<times> json) list"

section \<open>UTF-8\<close>

definition byte_in :: "nat \<Rightarrow> nat \<Rightarrow> char \<Rightarrow> bool" where
  "byte_in a b c \<longleftrightarrow> a \<le> of_char c \<and> of_char c \<le> b"

text \<open>The table of well-formed byte sequences; all but the first trailing byte are 80..BF.\<close>

fun valid_utf8 :: "string \<Rightarrow> bool" where
  "valid_utf8 [] = True"
| "valid_utf8 (c # s) =
     (if byte_in 0 127 c then valid_utf8 s
      else case s of
        [] \<Rightarrow> False
      | c1 # s1 \<Rightarrow>
          if byte_in 0xC2 0xDF c then byte_in 0x80 0xBF c1 \<and> valid_utf8 s1
          else case s1 of
            [] \<Rightarrow> False
          | c2 # s2 \<Rightarrow>
              if byte_in 0xE0 0xEF c then
                byte_in (if byte_in 0xE0 0xE0 c then 0xA0 else 0x80) (if byte_in 0xED 0xED c then 0x9F else 0xBF) c1
                \<and> byte_in 0x80 0xBF c2 \<and> valid_utf8 s2
              else case s2 of
                [] \<Rightarrow> False
              | c3 # s3 \<Rightarrow>
                  byte_in 0xF0 0xF4 c
                  \<and> byte_in (if byte_in 0xF0 0xF0 c then 0x90 else 0x80) (if byte_in 0xF4 0xF4 c then 0x8F else 0xBF) c1
                  \<and> byte_in 0x80 0xBF c2 \<and> byte_in 0x80 0xBF c3 \<and> valid_utf8 s3)"

lemma valid_utf8_ascii: "ascii s \<Longrightarrow> valid_utf8 s"
  by (induction s) (auto simp: ascii_def byte_in_def)

text \<open>The encoding of a code point.\<close>

definition utf8_encode :: "nat \<Rightarrow> string" where
  "utf8_encode n =
     map char_of
      (if n < 0x80 then [n]
       else if n < 0x800 then [0xC0 + n div 64, 0x80 + n mod 64]
       else if n < 0x10000 then [0xE0 + n div 4096, 0x80 + n div 64 mod 64, 0x80 + n mod 64]
       else [0xF0 + n div 262144, 0x80 + n div 4096 mod 64, 0x80 + n div 64 mod 64, 0x80 + n mod 64])"

section \<open>Printing\<close>

definition escape_char :: "char \<Rightarrow> string" where
  "escape_char c =
     (if c = CHR 0x22 \<or> c = CHR 0x5C then [CHR 0x5C, c]
      else if c = CHR 0x08 then [CHR 0x5C, CHR ''b'']
      else if c = CHR 0x0C then [CHR 0x5C, CHR ''f'']
      else if c = CHR 0x0A then [CHR 0x5C, CHR ''n'']
      else if c = CHR 0x0D then [CHR 0x5C, CHR ''r'']
      else if c = CHR 0x09 then [CHR 0x5C, CHR ''t'']
      else if byte_in 0 31 c then
        [CHR 0x5C, CHR ''u'', CHR ''0'', CHR ''0'',
         digit_char (of_char c div 16), digit_char (of_char c mod 16)]
      else [c])"

definition print_string :: "string \<Rightarrow> string" where
  "print_string s = CHR 0x22 # concat (map escape_char s) @ [CHR 0x22]"

fun join_with :: "'a \<Rightarrow> 'a list list \<Rightarrow> 'a list" where
  "join_with sep [] = []"
| "join_with sep [x] = x"
| "join_with sep (x # y # xs) = x @ sep # join_with sep (y # xs)"

fun print_json :: "json \<Rightarrow> string" where
  "print_json JNull = ''null''"
| "print_json (JBool b) = (if b then ''true'' else ''false'')"
| "print_json (JNum t) = t"
| "print_json (JStr s) = print_string s"
| "print_json (JArr vs) = CHR ''['' # join_with CHR '','' (map print_json vs) @ '']''"
| "print_json (JObj kvs) =
     CHR ''{'' # join_with CHR '','' (map (\<lambda>kv. print_string (fst kv) @ CHR '':'' # print_json (snd kv)) kvs) @ ''}''"

section \<open>Parsing\<close>

definition skip_ws :: "string \<Rightarrow> string" where
  "skip_ws s = dropWhile (\<lambda>c. c \<in> {CHR 0x20, CHR 0x09, CHR 0x0A, CHR 0x0D}) s"

definition hex_digit :: "char \<Rightarrow> bool" where
  "hex_digit c \<longleftrightarrow> byte_in 48 57 c \<or> byte_in 97 102 c \<or> byte_in 65 70 c"

definition hex_val :: "char \<Rightarrow> nat" where
  "hex_val c = (if byte_in 65 70 c then of_char c - 55 else digit_val c)"

definition hex4 :: "char \<Rightarrow> char \<Rightarrow> char \<Rightarrow> char \<Rightarrow> nat option" where
  "hex4 a b c d =
     (if hex_digit a \<and> hex_digit b \<and> hex_digit c \<and> hex_digit d
      then Some (((hex_val a * 16 + hex_val b) * 16 + hex_val c) * 16 + hex_val d) else None)"

definition unescape :: "char \<Rightarrow> char option" where
  "unescape e =
     (if e = CHR 0x22 \<or> e = CHR 0x5C \<or> e = CHR ''/'' then Some e
      else if e = CHR ''b'' then Some (CHR 0x08)
      else if e = CHR ''f'' then Some (CHR 0x0C)
      else if e = CHR ''n'' then Some (CHR 0x0A)
      else if e = CHR ''r'' then Some (CHR 0x0D)
      else if e = CHR ''t'' then Some (CHR 0x09)
      else None)"

definition put_front :: "'a list \<Rightarrow> ('a list \<times> 'b) option \<Rightarrow> ('a list \<times> 'b) option" where
  "put_front xs res = map_option (\<lambda>(ys, r). (xs @ ys, r)) res"

text \<open>The rest of a string literal, after its opening quote.\<close>

fun scan_string :: "string \<Rightarrow> (string \<times> string) option" where
  "scan_string [] = None"
| "scan_string (c # s) =
     (if c = CHR 0x22 then Some ([], s)
      else if byte_in 0 31 c then None
      else if c \<noteq> CHR 0x5C then put_front [c] (scan_string s)
      else case s of
        [] \<Rightarrow> None
      | e # s' \<Rightarrow>
          if e \<noteq> CHR ''u'' then
            (case unescape e of None \<Rightarrow> None | Some b \<Rightarrow> put_front [b] (scan_string s'))
          else case s' of
            h1 # h2 # h3 # h4 # s2 \<Rightarrow>
              (case hex4 h1 h2 h3 h4 of
                 None \<Rightarrow> None
               | Some n \<Rightarrow>
                   if 0xD800 \<le> n \<and> n < 0xDC00 then
                     (case s2 of
                        b # u # l1 # l2 # l3 # l4 # s3 \<Rightarrow>
                          (case hex4 l1 l2 l3 l4 of
                             None \<Rightarrow> None
                           | Some m \<Rightarrow>
                               if b = CHR 0x5C \<and> u = CHR ''u'' \<and> 0xDC00 \<le> m \<and> m < 0xE000
                               then put_front (utf8_encode (0x10000 + (n - 0xD800) * 1024 + (m - 0xDC00)))
                                      (scan_string s3)
                               else None)
                      | _ \<Rightarrow> None)
                   else if 0xDC00 \<le> n \<and> n < 0xE000 then None
                   else put_front (utf8_encode n) (scan_string s2))
          | _ \<Rightarrow> None)"

definition is_digit :: "char \<Rightarrow> bool" where
  "is_digit c = byte_in 48 57 c"

definition number_char :: "char \<Rightarrow> bool" where
  "number_char c \<longleftrightarrow> is_digit c \<or> c \<in> {CHR ''-'', CHR ''+'', CHR ''.'', CHR ''e'', CHR ''E''}"

fun valid_exponent :: "string \<Rightarrow> bool" where
  "valid_exponent [] = True"
| "valid_exponent (e # s) =
     (e \<in> {CHR ''e'', CHR ''E''}
      \<and> (case s of
           [] \<Rightarrow> False
         | c # s' \<Rightarrow> (if c \<in> {CHR ''+'', CHR ''-''} then s' \<noteq> [] \<and> list_all is_digit s'
                     else list_all is_digit s)))"

fun valid_fraction :: "string \<Rightarrow> bool" where
  "valid_fraction [] = True"
| "valid_fraction (c # s) =
     (if c = CHR ''.'' then s \<noteq> [] \<and> is_digit (hd s) \<and> valid_exponent (dropWhile is_digit s)
      else valid_exponent (c # s))"

definition valid_number :: "string \<Rightarrow> bool" where
  "valid_number t =
     (case (if t \<noteq> [] \<and> hd t = CHR ''-'' then tl t else t) of
        [] \<Rightarrow> False
      | d # s \<Rightarrow> is_digit d \<and> valid_fraction (if d = CHR ''0'' then s else dropWhile is_digit s))"

definition literal :: "string \<Rightarrow> json \<Rightarrow> string \<Rightarrow> (json \<times> string) option" where
  "literal word v s = (if take (length word) s = word then Some (v, drop (length word) s) else None)"

text \<open>A repeated key overwrites the earlier value.\<close>

definition object_of :: "(string \<times> json) list \<Rightarrow> (string \<times> json) list" where
  "object_of kvs = foldl (\<lambda>m kv. umap_assign (fst kv) (snd kv) m) [] kvs"

fun parse_value :: "nat \<Rightarrow> string \<Rightarrow> (json \<times> string) option"
  and parse_elements :: "nat \<Rightarrow> string \<Rightarrow> (json list \<times> string) option"
  and parse_members :: "nat \<Rightarrow> string \<Rightarrow> ((string \<times> json) list \<times> string) option"
where
  "parse_value 0 s = None"
| "parse_value (Suc n) s =
     (case skip_ws s of
        [] \<Rightarrow> None
      | c # s' \<Rightarrow>
          if c = CHR ''n'' then literal ''ull'' JNull s'
          else if c = CHR ''t'' then literal ''rue'' (JBool True) s'
          else if c = CHR ''f'' then literal ''alse'' (JBool False) s'
          else if c = CHR 0x22 then
            (case scan_string s' of
               None \<Rightarrow> None
             | Some (t, r) \<Rightarrow> if valid_utf8 t then Some (JStr t, r) else None)
          else if c = CHR ''['' then
            (case skip_ws s' of
               [] \<Rightarrow> None
             | d # r \<Rightarrow>
                 if d = CHR '']'' then Some (JArr [], r)
                 else map_option (\<lambda>(vs, r'). (JArr vs, r')) (parse_elements n s'))
          else if c = CHR ''{'' then
            (case skip_ws s' of
               [] \<Rightarrow> None
             | d # r \<Rightarrow>
                 if d = CHR ''}'' then Some (JObj [], r)
                 else map_option (\<lambda>(kvs, r'). (JObj (object_of kvs), r')) (parse_members n s'))
          else
            (let t = takeWhile number_char (c # s')
             in if valid_number t then Some (JNum t, dropWhile number_char (c # s')) else None))"
| "parse_elements 0 s = None"
| "parse_elements (Suc n) s =
     (case parse_value n s of
        None \<Rightarrow> None
      | Some (v, r) \<Rightarrow>
          (case skip_ws r of
             [] \<Rightarrow> None
           | c # r' \<Rightarrow>
               if c = CHR '','' then put_front [v] (parse_elements n r')
               else if c = CHR '']'' then Some ([v], r')
               else None))"
| "parse_members 0 s = None"
| "parse_members (Suc n) s =
     (case skip_ws s of
        [] \<Rightarrow> None
      | q # s1 \<Rightarrow>
          if q \<noteq> CHR 0x22 then None
          else case scan_string s1 of
            None \<Rightarrow> None
          | Some (k, s2) \<Rightarrow>
              (case skip_ws s2 of
                 [] \<Rightarrow> None
               | colon # s3 \<Rightarrow>
                   if colon \<noteq> CHR '':'' \<or> \<not> valid_utf8 k then None
                   else case parse_value n s3 of
                     None \<Rightarrow> None
                   | Some (v, r) \<Rightarrow>
                       (case skip_ws r of
                          [] \<Rightarrow> None
                        | c # r' \<Rightarrow>
                            if c = CHR '','' then put_front [(k, v)] (parse_members n r')
                            else if c = CHR ''}'' then Some ([(k, v)], r')
                            else None)))"

definition parse_json :: "string \<Rightarrow> json option" where
  "parse_json s =
     (case parse_value (length s) s of
        Some (j, r) \<Rightarrow> if skip_ws r = [] then Some j else None
      | None \<Rightarrow> None)"

section \<open>Values that can be written\<close>

fun ok_json :: "json \<Rightarrow> bool" where
  "ok_json JNull = True"
| "ok_json (JBool b) = True"
| "ok_json (JNum t) = (valid_number t \<and> list_all number_char t)"
| "ok_json (JStr s) = valid_utf8 s"
| "ok_json (JArr vs) = (\<forall>v \<in> set vs. ok_json v)"
| "ok_json (JObj kvs) =
     (distinct (map fst kvs) \<and> (\<forall>kv \<in> set kvs. valid_utf8 (fst kv) \<and> ok_json (snd kv)))"

section \<open>Parsing what was printed\<close>

lemma skip_ws_Cons [simp]:
  "c \<notin> {CHR 0x20, CHR 0x09, CHR 0x0A, CHR 0x0D} \<Longrightarrow> skip_ws (c # s) = c # s"
  by (simp add: skip_ws_def)

lemma put_front_Some [simp]: "put_front xs (Some (ys, r)) = Some (xs @ ys, r)"
  by (simp add: put_front_def)

lemma put_front_eq_Some:
  "put_front xs res = Some (zs, r) \<longleftrightarrow> (\<exists>ys. res = Some (ys, r) \<and> zs = xs @ ys)"
  by (auto simp: put_front_def)

lemma hex_digit_char: "d < 16 \<Longrightarrow> hex_digit (digit_char d) \<and> hex_val (digit_char d) = d"
  by (drule digit_char_cases)
    (auto simp: hex_digit_def hex_val_def digit_char_def digit_val_def byte_in_def)

lemma control_code:
  "n < 256 \<Longrightarrow> hex4 CHR ''0'' CHR ''0'' (digit_char (n div 16)) (digit_char (n mod 16)) = Some n"
  using hex_digit_char [of "n div 16"] hex_digit_char [of "n mod 16"]
    hex_digit_char [of 0] by (simp add: hex4_def digit_char_def)

lemma scan_escaped_char:
  assumes "scan_string t = Some (s, rest)"
  shows "scan_string (escape_char c @ t) = Some (c # s, rest)"
proof (cases "byte_in 0 31 c")
  case True
  then have n: "of_char c \<in> {0..<32::nat}" by (simp add: byte_in_def)
  then have "hex4 CHR ''0'' CHR ''0'' (digit_char (of_char c div 16)) (digit_char (of_char c mod 16))
      = Some (of_char c)"
    by (intro control_code) simp
  moreover have "utf8_encode (of_char c) = [c]" using n by (simp add: utf8_encode_def)
  ultimately show ?thesis
    using assms n True by (simp add: escape_char_def unescape_def byte_in_def)
next
  case False
  with assms show ?thesis by (auto simp: escape_char_def unescape_def byte_in_def)
qed

lemma scan_printed: "scan_string (concat (map escape_char s) @ CHR 0x22 # rest) = Some (s, rest)"
  by (induction s) (simp_all add: scan_escaped_char)

lemma object_of_distinct: "distinct (map fst kvs) \<Longrightarrow> object_of kvs = kvs"
proof -
  have app: "AList.update k v m = m @ [(k, v)]" if "k \<notin> fst ` set m" for k :: string and v :: json and m
    using that by (induction m) auto
  have "foldl (\<lambda>m kv. umap_assign (fst kv) (snd kv) m) m kvs = m @ kvs"
    if "distinct (map fst (m @ kvs))" for m :: "(string \<times> json) list" and kvs
    using that by (induction kvs arbitrary: m) (auto simp: umap_assign_def app)
  then show "distinct (map fst kvs) \<Longrightarrow> ?thesis" by (simp add: object_of_def)
qed

text \<open>What may follow a printed value: the end, or a delimiter.\<close>

definition stops :: "string \<Rightarrow> bool" where
  "stops rest \<longleftrightarrow> rest = [] \<or> hd rest \<in> {CHR '','', CHR '']'', CHR ''}''}"

lemma number_token:
  assumes "list_all number_char t" and "stops rest"
  shows "takeWhile number_char (t @ rest) = t" and "dropWhile number_char (t @ rest) = rest"
proof -
  have "rest = [] \<or> \<not> number_char (hd rest)"
    using assms(2) by (auto simp: stops_def number_char_def is_digit_def byte_in_def)
  then show "takeWhile number_char (t @ rest) = t" "dropWhile number_char (t @ rest) = rest"
    using assms(1)
    by (auto simp: list_all_iff takeWhile_append dropWhile_append takeWhile_eq_Nil_iff dropWhile_eq_self_iff)
qed

lemma number_start:
  assumes "valid_number t"
  obtains c s where "t = c # s" and "is_digit c \<or> c = CHR ''-''"
  using assms by (cases t) (auto simp: valid_number_def split: if_splits list.splits)

definition parses_back :: "json \<Rightarrow> bool" where
  "parses_back j \<longleftrightarrow> (\<forall>n rest. length (print_json j) \<le> n \<longrightarrow> stops rest \<longrightarrow>
     parse_value n (print_json j @ rest) = Some (j, rest))"

lemma parses_back_number:
  assumes "ok_json (JNum t)"
  shows "parses_back (JNum t)"
  unfolding parses_back_def
proof (intro allI impI)
  fix n rest
  assume n: "length (print_json (JNum t)) \<le> n" and rest: "stops rest"
  obtain c s where t: "t = c # s" and c: "is_digit c \<or> c = CHR ''-''"
    using assms number_start by (metis ok_json.simps(3))
  obtain m where m: "n = Suc m" using n t by (cases n) auto
  have "c \<notin> {CHR ''n'', CHR ''t'', CHR ''f'', CHR 0x22, CHR ''['', CHR ''{'',
      CHR 0x20, CHR 0x09, CHR 0x0A, CHR 0x0D}"
    using c by (auto simp: is_digit_def byte_in_def)
  then show "parse_value n (print_json (JNum t) @ rest) = Some (JNum t, rest)"
    using number_token [OF _ rest, of t] assms t m by (simp add: Let_def)
qed

lemma parse_elements_back:
  assumes "vs \<noteq> []" and "\<forall>v \<in> set vs. parses_back v"
    and "length (join_with CHR '','' (map print_json vs)) < n"
  shows "parse_elements n (join_with CHR '','' (map print_json vs) @ CHR '']'' # rest) = Some (vs, rest)"
  using assms
proof (induction vs arbitrary: n rule: list_nonempty_induct)
  case (single v)
  then obtain m where "n = Suc m" by (cases n) auto
  with single show ?case by (simp add: parses_back_def stops_def)
next
  case (cons v vs)
  then obtain m where n: "n = Suc m" by (cases n) auto
  obtain w ws where vs: "vs = w # ws" using cons.hyps by (cases vs) auto
  let ?tail = "join_with CHR '','' (map print_json vs)"
  have len: "length (print_json v) + length ?tail < m" using cons.prems n vs by simp
  have "parse_value m (print_json v @ CHR '','' # ?tail @ CHR '']'' # rest)
      = Some (v, CHR '','' # ?tail @ CHR '']'' # rest)"
    using cons.prems(1) len by (simp add: parses_back_def stops_def)
  moreover have "parse_elements m (?tail @ CHR '']'' # rest) = Some (vs, rest)"
    using cons.IH cons.prems(1) len by simp
  ultimately show ?case using n vs by simp
qed

definition print_member :: "string \<times> json \<Rightarrow> string" where
  "print_member kv = print_string (fst kv) @ CHR '':'' # print_json (snd kv)"

lemma parse_member:
  assumes "valid_utf8 (fst kv)" and "parses_back (snd kv)" and "length (print_member kv) \<le> n"
    and "skip_ws rest = c # r" and "stops rest"
  shows "parse_members (Suc n) (print_member kv @ rest) =
    (if c = CHR '','' then put_front [kv] (parse_members n r)
     else if c = CHR ''}'' then Some ([kv], r) else None)"
  using assms by (simp add: print_member_def print_string_def scan_printed parses_back_def)

lemma parse_members_back:
  assumes "kvs \<noteq> []" and "\<forall>kv \<in> set kvs. valid_utf8 (fst kv) \<and> parses_back (snd kv)"
    and "length (join_with CHR '','' (map print_member kvs)) < n"
  shows "parse_members n (join_with CHR '','' (map print_member kvs) @ CHR ''}'' # rest) = Some (kvs, rest)"
  using assms
proof (induction kvs arbitrary: n rule: list_nonempty_induct)
  case (single kv)
  then obtain m where "n = Suc m" by (cases n) auto
  with single show ?case
    by (simp add: parse_member [where c = "CHR ''}''" and r = rest] stops_def del: parse_members.simps)
next
  case (cons kv kvs)
  then obtain m where n: "n = Suc m" by (cases n) auto
  obtain w ws where kvs: "kvs = w # ws" using cons.hyps by (cases kvs) auto
  let ?tail = "join_with CHR '','' (map print_member kvs)"
  have len: "length (print_member kv) + length ?tail < m" using cons.prems n kvs by simp
  have "parse_members m (?tail @ CHR ''}'' # rest) = Some (kvs, rest)"
    using cons.IH cons.prems(1) len by simp
  then show ?case
    using n kvs cons.prems(1) len
    by (simp add: parse_member [where c = "CHR '',''" and r = "?tail @ CHR ''}'' # rest"] stops_def
        del: parse_members.simps)
qed

lemma print_json_start:
  assumes "ok_json j"
  obtains c s where "print_json j = c # s"
    and "c \<notin> {CHR '']'', CHR 0x20, CHR 0x09, CHR 0x0A, CHR 0x0D}"
proof (cases j)
  case (JNum t)
  with assms obtain c s where "t = c # s" and "is_digit c \<or> c = CHR ''-''"
    using number_start by (metis ok_json.simps(3))
  with JNum show ?thesis
    by (intro that [of c s]) (auto simp: is_digit_def byte_in_def)
next
  case (JBool b)
  then show ?thesis by (cases b) (auto intro: that)
qed (use that in \<open>auto simp: print_string_def split: if_splits\<close>)

lemma join_with_start: "xs \<noteq> [] \<Longrightarrow> \<exists>u. join_with sep xs = hd xs @ u"
  by (cases "(sep, xs)" rule: join_with.cases) auto

lemma parses_back_array:
  assumes "ok_json (JArr vs)" and "\<forall>v \<in> set vs. parses_back v"
  shows "parses_back (JArr vs)"
  unfolding parses_back_def
proof (intro allI impI)
  fix n rest
  assume n: "length (print_json (JArr vs)) \<le> n" and "stops rest"
  then obtain m where m: "n = Suc m" by (cases n) auto
  let ?body = "join_with CHR '','' (map print_json vs)"
  show "parse_value n (print_json (JArr vs) @ rest) = Some (JArr vs, rest)"
  proof (cases "vs = []")
    case True
    with m show ?thesis by simp
  next
    case False
    then have "ok_json (hd vs)" using assms(1) by simp
    then obtain c s where c: "print_json (hd vs) = c # s"
      "c \<notin> {CHR '']'', CHR 0x20, CHR 0x09, CHR 0x0A, CHR 0x0D}"
      using print_json_start by metis
    then obtain u where body: "?body = c # u"
      using join_with_start [of "map print_json vs" "CHR '',''"] False by (auto simp: hd_map)
    have "parse_elements m (?body @ CHR '']'' # rest) = Some (vs, rest)"
      using parse_elements_back [OF False assms(2)] n m by simp
    with body c m show ?thesis by simp
  qed
qed

lemma parses_back_object:
  assumes "ok_json (JObj kvs)" and "\<forall>kv \<in> set kvs. parses_back (snd kv)"
  shows "parses_back (JObj kvs)"
  unfolding parses_back_def
proof (intro allI impI)
  fix n rest
  assume n: "length (print_json (JObj kvs)) \<le> n" and "stops rest"
  then obtain m where m: "n = Suc m" by (cases n) auto
  let ?body = "join_with CHR '','' (map print_member kvs)"
  have pr: "print_json (JObj kvs) = CHR ''{'' # ?body @ ''}''"
    by (simp add: print_member_def [abs_def])
  show "parse_value n (print_json (JObj kvs) @ rest) = Some (JObj kvs, rest)"
  proof (cases "kvs = []")
    case True
    with m show ?thesis by simp
  next
    case False
    then obtain u where body: "?body = CHR 0x22 # u"
      using join_with_start [of "map print_member kvs" "CHR '',''"]
      by (auto simp: hd_map print_member_def print_string_def)
    have "\<forall>kv \<in> set kvs. valid_utf8 (fst kv) \<and> parses_back (snd kv)"
      using assms by simp
    from parse_members_back [OF False this, of m rest]
    have "parse_members m (?body @ CHR ''}'' # rest) = Some (kvs, rest)"
      using n m pr by simp
    with body m assms(1) show ?thesis by (simp add: pr object_of_distinct del: print_json.simps)
  qed
qed

lemma parse_print_value: "ok_json j \<Longrightarrow> parses_back j"
proof (induction j)
  case JNull
  show ?case by (auto simp: parses_back_def literal_def dest!: Suc_le_D)
next
  case (JBool b)
  show ?case by (auto simp: parses_back_def literal_def dest!: Suc_le_D)
next
  case (JNum t)
  then show ?case by (rule parses_back_number)
next
  case (JStr s)
  then show ?case
    by (auto simp: parses_back_def print_string_def scan_printed dest!: Suc_le_D)
next
  case (JArr vs)
  then show ?case by (intro parses_back_array) auto
next
  case (JObj kvs)
  then show ?case by (intro parses_back_object) (auto simp: snds.simps)
qed

lemma parse_print: "ok_json j \<Longrightarrow> parse_json (print_json j) = Some j"
proof -
  assume "ok_json j"
  then have "parse_value (length (print_json j)) (print_json j @ []) = Some (j, [])"
    using parse_print_value by (simp add: parses_back_def stops_def del: append_Nil2)
  then show ?thesis by (simp add: parse_json_def skip_ws_def)
qed

section \<open>Only writable values are parsed\<close>

lemma assign_subset: "set (umap_assign k v m) \<subseteq> insert (k, v) (set m)"
  unfolding umap_assign_def by (induction m) auto

lemma ok_json_assign:
  assumes "ok_json (JObj m)" and "valid_utf8 k" and "ok_json v"
  shows "ok_json (JObj (umap_assign k v m))"
proof -
  have "valid_utf8 (fst kv) \<and> ok_json (snd kv)" if "kv \<in> set (umap_assign k v m)" for kv
  proof -
    have "kv = (k, v) \<or> kv \<in> set m" using that assign_subset [of k v m] by blast
    with assms show ?thesis by auto
  qed
  moreover have "distinct (map fst (umap_assign k v m))"
    using assms(1) umap_wf_assign [of m k v] by (simp add: umap_wf_def)
  ultimately show ?thesis by simp
qed

lemma object_of_ok:
  assumes "\<forall>kv \<in> set kvs. valid_utf8 (fst kv) \<and> ok_json (snd kv)"
  shows "ok_json (JObj (object_of kvs))"
proof -
  have "ok_json (JObj (foldl (\<lambda>m kv. umap_assign (fst kv) (snd kv) m) m kvs))"
    if "ok_json (JObj m)" for m
    using assms that
  proof (induction kvs arbitrary: m)
    case (Cons kv kvs)
    have "ok_json (JObj (umap_assign (fst kv) (snd kv) m))"
      using Cons.prems by (intro ok_json_assign) simp_all
    then have "ok_json (JObj (foldl (\<lambda>m kv. umap_assign (fst kv) (snd kv) m) (umap_assign (fst kv) (snd kv) m) kvs))"
      using Cons.prems(1) by (intro Cons.IH) simp_all
    then show ?case by (simp only: foldl_Cons)
  qed (simp only: foldl_Nil)
  from this [of "[]"] show ?thesis by (simp add: object_of_def)
qed

lemma parse_value_ok_step:
  assumes elems: "\<And>s vs r. parse_elements n s = Some (vs, r) \<Longrightarrow> \<forall>v \<in> set vs. ok_json v"
    and members: "\<And>s kvs r. parse_members n s = Some (kvs, r) \<Longrightarrow>
      \<forall>kv \<in> set kvs. valid_utf8 (fst kv) \<and> ok_json (snd kv)"
    and val: "parse_value (Suc n) s = Some (j, r)"
  shows "ok_json j"
proof -
  obtain c s' where ws: "skip_ws s = c # s'"
    using val by (auto split: list.splits)
  have num: "list_all number_char (takeWhile number_char t)" for t
    by (auto simp: list_all_iff dest: set_takeWhileD)
  consider "c \<in> {CHR ''n'', CHR ''t'', CHR ''f''}" | "c = CHR 0x22" | "c = CHR ''[''" | "c = CHR ''{''"
    | "c \<notin> {CHR ''n'', CHR ''t'', CHR ''f'', CHR 0x22, CHR ''['', CHR ''{''}"
    by blast
  then show ?thesis
  proof cases
    case 1
    with val ws show ?thesis by (auto simp: literal_def split: if_splits)
  next
    case 2
    with val ws show ?thesis by (auto split: option.splits if_splits)
  next
    case 3
    with val ws show ?thesis by (auto split: list.splits if_splits dest: elems)
  next
    case 4
    with val ws show ?thesis
      by (auto split: list.splits if_splits simp del: ok_json.simps(6) intro!: object_of_ok dest: members)
        (simp add: ok_json.simps)
  next
    case 5
    with val ws num show ?thesis by (auto simp: Let_def split: if_splits)
  qed
qed

lemma parse_ok_json:
  "(\<forall>s j r. parse_value n s = Some (j, r) \<longrightarrow> ok_json j)
   \<and> (\<forall>s vs r. parse_elements n s = Some (vs, r) \<longrightarrow> (\<forall>v \<in> set vs. ok_json v))
   \<and> (\<forall>s kvs r. parse_members n s = Some (kvs, r) \<longrightarrow>
        (\<forall>kv \<in> set kvs. valid_utf8 (fst kv) \<and> ok_json (snd kv)))"
proof (induction n)
  case (Suc n)
  have "ok_json j" if "parse_value (Suc n) s = Some (j, r)" for s j r
    using parse_value_ok_step [OF _ _ that] Suc by blast
  moreover have "\<forall>v \<in> set vs. ok_json v" if "parse_elements (Suc n) s = Some (vs, r)" for s vs r
    using that Suc by (fastforce simp: put_front_eq_Some split: list.splits if_splits option.splits)
  moreover have "\<forall>kv \<in> set kvs. valid_utf8 (fst kv) \<and> ok_json (snd kv)"
    if "parse_members (Suc n) s = Some (kvs, r)" for s kvs r
    using that Suc by (fastforce simp: put_front_eq_Some split: list.splits if_splits option.splits)
  ultimately show ?case by blast
qed simp

section \<open>The operations of the library\<close>

definition text_api :: "json json_api" where
  "text_api =
     \<lparr>json_parse = parse_json,
      number_overflows = (\<lambda>_. False),
      json_dump = (\<lambda>j. if ok_json j then Some (print_json j) else None),
      is_object = (\<lambda>j. case j of JObj _ \<Rightarrow> True | _ \<Rightarrow> False),
      is_string = (\<lambda>j. case j of JStr _ \<Rightarrow> True | _ \<Rightarrow> False),
      is_null = (\<lambda>j. case j of JNull \<Rightarrow> True | _ \<Rightarrow> False),
      contains = (\<lambda>j k. case j of JObj kvs \<Rightarrow> map_of kvs k \<noteq> None | _ \<Rightarrow> False),
      json_at = (\<lambda>j k. case j of JObj kvs \<Rightarrow> (case map_of kvs k of Some v \<Rightarrow> v | None \<Rightarrow> JNull) | _ \<Rightarrow> JNull),
      get_string = (\<lambda>j. case j of JStr s \<Rightarrow> s | _ \<Rightarrow> []),
      json_string = JStr,
      json_bool = JBool,
      json_object = (\<lambda>kvs. JObj (object_of kvs)),
      empty_array = JArr [],
      push_back = (\<lambda>j v. case j of JArr vs \<Rightarrow> JArr (vs @ [v]) | _ \<Rightarrow> j),
      json_set = (\<lambda>j k v. case j of
          JObj kvs \<Rightarrow> Some (JObj (umap_assign k v kvs))
        | JNull \<Rightarrow> Some (JObj [(k, v)])
        | _ \<Rightarrow> None)\<rparr>"

definition elements_of :: "json \<Rightarrow> json list" where
  "elements_of j = (case j of JArr vs \<Rightarrow> vs | _ \<Rightarrow> [])"

definition bool_value :: "json \<Rightarrow> bool" where
  "bool_value j = (j = JBool True)"

lemma text_api_sel [simp]:
  "json_parse text_api = parse_json"
  "number_overflows text_api t = False"
  "json_dump text_api j = (if ok_json j then Some (print_json j) else None)"
  "is_object text_api j = (case j of JObj _ \<Rightarrow> True | _ \<Rightarrow> False)"
  "is_string text_api j = (case j of JStr _ \<Rightarrow> True | _ \<Rightarrow> False)"
  "is_null text_api j = (case j of JNull \<Rightarrow> True | _ \<Rightarrow> False)"
  "contains text_api j k = (case j of JObj kvs \<Rightarrow> map_of kvs k \<noteq> None | _ \<Rightarrow> False)"
  "json_at text_api j k =
     (case j of JObj kvs \<Rightarrow> (case map_of kvs k of Some v \<Rightarrow> v | None \<Rightarrow> JNull) | _ \<Rightarrow> JNull)"
  "get_string text_api j = (case j of JStr s \<Rightarrow> s | _ \<Rightarrow> [])"
  "json_string text_api = JStr"
  "json_bool text_api = JBool"
  "json_object text_api kvs = JObj (object_of kvs)"
  "empty_array text_api = JArr []"
  "push_back text_api j v = (case j of JArr vs \<Rightarrow> JArr (vs @ [v]) | _ \<Rightarrow> j)"
  "json_set text_api j k v =
     (case j of JObj kvs \<Rightarrow> Some (JObj (umap_assign k v kvs)) | JNull \<Rightarrow> Some (JObj [(k, v)]) | _ \<Rightarrow> None)"
  by (simp_all add: text_api_def)

lemma text_pushed: "foldl (push_back text_api) (JArr us) vs = JArr (us @ vs)"
  by (induction vs arbitrary: us) simp_all

lemma text_set_object:
  assumes "is_object text_api j"
  shows "\<exists>j'. json_set text_api j k v = Some j' \<and> is_object text_api j'
    \<and> (ok_json j \<longrightarrow> ok_json v \<longrightarrow> valid_utf8 k \<longrightarrow> ok_json j')
    \<and> (\<forall>k'. contains text_api j' k' \<longleftrightarrow> k' = k \<or> contains text_api j k') \<and> json_at text_api j' k = v
    \<and> (\<forall>k'. k' \<noteq> k \<longrightarrow> contains text_api j k' \<longrightarrow> json_at text_api j' k' = json_at text_api j k')"
proof -
  obtain kvs where "j = JObj kvs" using assms by (cases j) auto
  then show ?thesis
    by (intro exI [of _ "JObj (umap_assign k v kvs)"]) (auto simp: ok_json_assign simp del: ok_json.simps(6))
qed

interpretation text_json: nlohmann_json text_api valid_utf8 ok_json elements_of bool_value
proof
  fix j k assume "ok_json j" and "contains text_api j k"
  then obtain kvs v where "j = JObj kvs" and "map_of kvs k = Some v"
    by (cases j) auto
  with \<open>ok_json j\<close> show "ok_json (json_at text_api j k)"
    by (auto dest!: map_of_SomeD)
next
  fix s j assume "json_parse text_api s = Some j"
  then show "ok_json j"
    using parse_ok_json by (fastforce simp: parse_json_def split: option.splits if_splits)
next
  fix j k v assume "is_object text_api j"
  then show "\<exists>j'. json_set text_api j k v = Some j' \<and> is_object text_api j'
    \<and> (ok_json j \<longrightarrow> ok_json v \<longrightarrow> valid_utf8 k \<longrightarrow> ok_json j')
    \<and> (\<forall>k'. contains text_api j' k' \<longleftrightarrow> k' = k \<or> contains text_api j k') \<and> json_at text_api j' k = v
    \<and> (\<forall>k'. k' \<noteq> k \<longrightarrow> contains text_api j k' \<longrightarrow> json_at text_api j' k' = json_at text_api j k')"
    by (rule text_set_object)
qed (auto simp: valid_utf8_ascii bool_value_def object_of_distinct map_of_eq_None_iff elements_of_def
    text_pushed parse_print split: json.splits)

end
