(* ===== verification/Codec.thy ===== *)
theory Codec
  imports Dispatcher JsonText
begin

text \<open>
  The JSON boundary, src/app/ProtocolCodec.cpp: decoding of requests (\<^verbatim>\<open>DecodeRequest\<close>) and
  encoding of responses, events, relayed signaling messages and protocol errors, over the JSON
  library's interface of theory \<open>Json\<close>.
\<close>

section \<open>Fields\<close>

definition RequiredString :: "'j json_api \<Rightarrow> 'j \<Rightarrow> string \<Rightarrow> exn + string" where
  "RequiredString J payload field =
     (if \<not> contains J payload field then Inl (invalid_argument ''missing_field'')
      else if \<not> is_string J (json_at J payload field) then Inl (invalid_argument ''invalid_field'')
      else Inr (get_string J (json_at J payload field)))"

definition OptionalString :: "'j json_api \<Rightarrow> 'j \<Rightarrow> string \<Rightarrow> exn + string option" where
  "OptionalString J payload field =
     (if \<not> contains J payload field \<or> is_null J (json_at J payload field) then Inr None
      else if \<not> is_string J (json_at J payload field) then Inl (invalid_argument ''invalid_field'')
      else Inr (Some (get_string J (json_at J payload field))))"

definition ParticipantToJson :: "'j json_api \<Rightarrow> Participant \<Rightarrow> 'j" where
  "ParticipantToJson J p =
     json_object J [(''participant_id'', json_string J (GetId p)),
                    (''display_name'', json_string J (GetName p))]"

definition ParticipantsToJson :: "'j json_api \<Rightarrow> Participant list \<Rightarrow> 'j" where
  "ParticipantsToJson J ps = foldl (\<lambda>json p. push_back J json (ParticipantToJson J p)) (empty_array J) ps"

section \<open>Names of types and errors\<close>

fun SignalingTypeToString :: "SignalingType \<Rightarrow> string" where
  "SignalingTypeToString Offer = ''offer''"
| "SignalingTypeToString Answer = ''answer''"
| "SignalingTypeToString IceCandidate = ''ice_candidate''"

definition ResultType :: "RequestMeta \<Rightarrow> string" where
  "ResultType m =
     (case meta_type m of
        CreateRoom \<Rightarrow> ''create_room_result''
      | JoinRoom \<Rightarrow> ''join_room_result''
      | LeaveRoom \<Rightarrow> ''leave_room_result''
      | Signaling \<Rightarrow>
          (case signaling_type m of
             Some t \<Rightarrow> SignalingTypeToString t @ ''_result''
           | None \<Rightarrow> ''error''))"

definition ErrorMessage :: "string \<Rightarrow> string" where
  "ErrorMessage code =
     (if code = ''invalid_json'' then ''Message must be valid JSON.''
      else if code = ''invalid_message'' then ''Message type or payload is invalid.''
      else if code = ''missing_field'' then ''Required field is missing.''
      else if code = ''invalid_field'' then ''Field has an invalid value.''
      else if code = ''room_not_found'' then ''Room was not found.''
      else if code = ''wrong_password'' then ''Room password is incorrect.''
      else if code = ''already_joined'' then ''Participant is already in the room.''
      else if code = ''not_in_room'' then ''Participant is not in the room.''
      else if code = ''participant_unavailable'' then ''Participant is not connected.''
      else if code = ''password_not_provided'' then ''Room password is required.''
      else if code = ''room_code_generation_failed'' then ''Room code could not be generated.''
      else if code = ''room_already_exists'' then ''Room already exists.''
      else ''Internal server error.'')"

fun ErrorCode :: "ErrorResponsePayload \<Rightarrow> string" where
  "ErrorCode RoomAlreadyExistsResponse = ''room_already_exists''"
| "ErrorCode RoomCodeGenerationFailedResponse = ''room_code_generation_failed''"
| "ErrorCode NotInRoomResponse = ''not_in_room''"
| "ErrorCode AlreadyInRoomResponse = ''already_joined''"
| "ErrorCode WrongPasswordResponse = ''wrong_password''"
| "ErrorCode PasswordNotProvidedResponse = ''password_not_provided''"
| "ErrorCode RoomNotFoundResponse = ''room_not_found''"
| "ErrorCode ParticipantUnavailableResponse = ''participant_unavailable''"
| "ErrorCode InternalErrorResponse = ''internal_error''"
| "ErrorCode UnexpectedErrorResponse = ''internal_error''"

section \<open>Decoding\<close>

text \<open>
  What leaves \<^verbatim>\<open>DecodeRequest\<close> besides a request: the library's \<^verbatim>\<open>parse_error\<close>, a
  \<^verbatim>\<open>ProtocolDecodeError\<close> with its metadata, code and request id, or any other exception.
\<close>

datatype decode_exn =
    parse_error
  | ProtocolDecodeError (GetMeta: "RequestMeta option") (what: string) (GetRequestId: "string option")
  | other_decode_exn exn

definition json_out_of_range :: exn where
  "json_out_of_range = other_exception ''nlohmann::json::out_of_range''"

text \<open>The constructor: a request id in the metadata is preferred to the one given.\<close>

definition ProtocolDecodeError_new ::
  "RequestMeta option \<Rightarrow> string \<Rightarrow> string option \<Rightarrow> decode_exn"
where
  "ProtocolDecodeError_new mt code rid =
     ProtocolDecodeError mt code
       (case mt of
          Some m \<Rightarrow> (case request_id m of Some i \<Rightarrow> Some i | None \<Rightarrow> rid)
        | None \<Rightarrow> rid)"

definition decode_meta :: "string \<Rightarrow> RequestMeta option" where
  "decode_meta ty =
     (if ty = ''create_room'' then Some \<lparr>meta_type = CreateRoom, request_id = None, signaling_type = None\<rparr>
      else if ty = ''join_room'' then Some \<lparr>meta_type = JoinRoom, request_id = None, signaling_type = None\<rparr>
      else if ty = ''leave_room'' then Some \<lparr>meta_type = LeaveRoom, request_id = None, signaling_type = None\<rparr>
      else if ty = ''offer'' then Some \<lparr>meta_type = Signaling, request_id = None, signaling_type = Some Offer\<rparr>
      else if ty = ''answer'' then Some \<lparr>meta_type = Signaling, request_id = None, signaling_type = Some Answer\<rparr>
      else if ty = ''ice_candidate''
        then Some \<lparr>meta_type = Signaling, request_id = None, signaling_type = Some IceCandidate\<rparr>
      else None)"

text \<open>
  The body of the inner \<^verbatim>\<open>try\<close>: the fields are read in the order of the initialisers.
  \<^verbatim>\<open>*meta->signaling_type\<close> is read only for the three signaling types, where it is set.
\<close>

definition decode_command ::
  "'j json_api \<Rightarrow> ParticipantId \<Rightarrow> string \<Rightarrow> RequestMeta \<Rightarrow> 'j \<Rightarrow> exn + 'j CommandType"
where
  "decode_command J pid ty mt payload =
     (if ty = ''create_room'' then
        andThen (RequiredString J payload ''display_name'') (\<lambda>name.
        andThen (OptionalString J payload ''password'') (\<lambda>password.
          Inr (CreateRoomCommand (Participant_new pid name) password)))
      else if ty = ''join_room'' then
        andThen (RequiredString J payload ''room_code'') (\<lambda>code.
        andThen (RequiredString J payload ''display_name'') (\<lambda>name.
        andThen (OptionalString J payload ''password'') (\<lambda>password.
          Inr (JoinRoomCommand code (Participant_new pid name) password))))
      else if ty = ''leave_room'' then
        andThen (RequiredString J payload ''room_code'') (\<lambda>code. Inr (LeaveRoomCommand code pid))
      else
        andThen (RequiredString J payload ''room_code'') (\<lambda>code.
        andThen (RequiredString J payload ''target_participant_id'') (\<lambda>target.
          Inr (SignalingCommand (the (signaling_type mt)) code pid target payload))))"

definition DecodeRequest ::
  "'j json_api \<Rightarrow> ParticipantId \<Rightarrow> string \<Rightarrow> decode_exn + 'j ControlDispatcherRequest"
where
  "DecodeRequest J pid message =
     (case json_parse J message of
        None \<Rightarrow> Inl (if number_overflows J message then other_decode_exn json_out_of_range else parse_error)
      | Some json \<Rightarrow>
          if \<not> is_object J json \<or> \<not> contains J json ''type'' \<or> \<not> is_string J (json_at J json ''type'')
          then Inl (ProtocolDecodeError_new None ''invalid_message'' None)
          else
            (let ty = get_string J (json_at J json ''type'');
                 rid = (if contains J json ''request_id'' \<and> is_string J (json_at J json ''request_id'')
                        then Some (get_string J (json_at J json ''request_id'')) else None)
             in case decode_meta ty of
                  None \<Rightarrow> Inl (ProtocolDecodeError_new None ''invalid_message'' rid)
                | Some mt \<Rightarrow>
                    if contains J json ''request_id'' \<and> \<not> is_null J (json_at J json ''request_id'')
                       \<and> \<not> is_string J (json_at J json ''request_id'')
                    then Inl (ProtocolDecodeError_new (Some mt) ''invalid_message'' None)
                    else
                      (let mt' = (if contains J json ''request_id'' \<and> is_string J (json_at J json ''request_id'')
                                  then mt\<lparr>request_id := rid\<rparr> else mt)
                       in if \<not> contains J json ''payload'' \<or> \<not> is_object J (json_at J json ''payload'')
                          then Inl (ProtocolDecodeError_new (Some mt') ''invalid_message'' None)
                          else
                            (case decode_command J pid ty mt' (json_at J json ''payload'') of
                               Inl (invalid_argument w) \<Rightarrow> Inl (ProtocolDecodeError_new (Some mt') w None)
                             | Inl ex \<Rightarrow> Inl (other_decode_exn ex)
                             | Inr cmd \<Rightarrow> Inr \<lparr>meta = mt', command = cmd\<rparr>))))"

section \<open>Encoding\<close>

definition json_type_error :: exn where
  "json_type_error = other_exception ''nlohmann::json::type_error''"

definition dump :: "'j json_api \<Rightarrow> 'j \<Rightarrow> exn + string" where
  "dump J j = (case json_dump J j of None \<Rightarrow> Inl json_type_error | Some s \<Rightarrow> Inr s)"

definition assign_key :: "'j json_api \<Rightarrow> string \<Rightarrow> 'j \<Rightarrow> 'j \<Rightarrow> exn + 'j" where
  "assign_key J k v j = (case json_set J j k v of None \<Rightarrow> Inl json_type_error | Some j' \<Rightarrow> Inr j')"

definition assign_request_id :: "'j json_api \<Rightarrow> string option \<Rightarrow> 'j \<Rightarrow> exn + 'j" where
  "assign_request_id J rid j =
     (case rid of None \<Rightarrow> Inr j | Some i \<Rightarrow> assign_key J ''request_id'' (json_string J i) j)"

definition error_object :: "'j json_api \<Rightarrow> string \<Rightarrow> 'j" where
  "error_object J code =
     json_object J [(''code'', json_string J code), (''message'', json_string J (ErrorMessage code))]"

fun payload_object :: "'j json_api \<Rightarrow> 'j SuccessResponsePayload \<Rightarrow> 'j" where
  "payload_object J (CreateRoomResponse code p ps) =
     json_object J [(''room_code'', json_string J code), (''participant'', ParticipantToJson J p),
                    (''participants'', ParticipantsToJson J ps)]"
| "payload_object J (JoinRoomResponse code p ps) =
     json_object J [(''room_code'', json_string J code), (''participant'', ParticipantToJson J p),
                    (''participants'', ParticipantsToJson J ps)]"
| "payload_object J (LeaveRoomResponse code) = json_object J [(''room_code'', json_string J code)]"
| "payload_object J (SignalingResponse ty code sender target data) =
     json_object J [(''room_code'', json_string J code)]"

definition EncodeResponse :: "'j json_api \<Rightarrow> 'j ControlDispatcherResponse \<Rightarrow> exn + string" where
  "EncodeResponse J resp =
     (let m = response_meta resp;
          json = json_object J [(''type'', json_string J (ResultType m)),
                                (''ok'', json_bool J (is_success resp))]
      in andThen (assign_request_id J (request_id m) json) (\<lambda>json1.
         andThen (case resp of
             ErrorResponse _ e \<Rightarrow> assign_key J ''error'' (error_object J (ErrorCode e)) json1
           | SuccessResponse _ p \<Rightarrow> assign_key J ''payload'' (payload_object J p) json1)
           (dump J)))"

definition EncodeEvent :: "'j json_api \<Rightarrow> ControlDispatcherEvent \<Rightarrow> exn + string" where
  "EncodeEvent J event =
     (case event of
        JoinedRoomEvent code p receivers \<Rightarrow>
          andThen (assign_key J ''participant'' (ParticipantToJson J p)
              (json_object J [(''room_code'', json_string J code),
                              (''participants'', ParticipantsToJson J receivers)])) (\<lambda>payload.
            dump J (json_object J [(''type'', json_string J ''participant_joined''), (''payload'', payload)]))
      | LeftRoomEvent code pid receivers \<Rightarrow>
          andThen (assign_key J ''participant_id'' (json_string J pid)
              (json_object J [(''room_code'', json_string J code),
                              (''participants'', ParticipantsToJson J receivers)])) (\<lambda>payload.
            dump J (json_object J [(''type'', json_string J ''participant_left''), (''payload'', payload)])))"

definition EncodeSignalingEvent ::
  "'j json_api \<Rightarrow> SignalingType \<Rightarrow> RoomCode \<Rightarrow> ParticipantId \<Rightarrow> ParticipantId \<Rightarrow> 'j \<Rightarrow> exn + string"
where
  "EncodeSignalingEvent J ty code sender target data =
     andThen (assign_key J ''room_code'' (json_string J code) data) (\<lambda>p1.
     andThen (assign_key J ''target_participant_id'' (json_string J target) p1) (\<lambda>p2.
     andThen (assign_key J ''from_participant_id'' (json_string J sender) p2) (\<lambda>p3.
       dump J (json_object J [(''type'', json_string J (SignalingTypeToString ty)), (''payload'', p3)]))))"

definition EncodeProtocolError ::
  "'j json_api \<Rightarrow> RequestMeta option \<Rightarrow> string \<Rightarrow> string option \<Rightarrow> exn + string"
where
  "EncodeProtocolError J mt code rid =
     (let json = json_object J
            [(''type'', json_string J (case mt of Some m \<Rightarrow> ResultType m | None \<Rightarrow> ''error'')),
             (''ok'', json_bool J False), (''error'', error_object J code)];
          chosen = (case mt of
              Some m \<Rightarrow> (case request_id m of Some i \<Rightarrow> Some i | None \<Rightarrow> rid)
            | None \<Rightarrow> rid)
      in andThen (assign_request_id J chosen json) (dump J))"

lemmas encode_ops [codec_defs] =
  dump_def assign_key_def assign_request_id_def error_object_def EncodeResponse_def
  EncodeEvent_def EncodeSignalingEvent_def EncodeProtocolError_def

section \<open>Reading a message back\<close>

text \<open>What a client sees: the fields of a parsed message.\<close>

definition field_string :: "'j json_api \<Rightarrow> 'j \<Rightarrow> string \<Rightarrow> string \<Rightarrow> bool" where
  "field_string J j k s \<longleftrightarrow>
     contains J j k \<and> is_string J (json_at J j k) \<and> get_string J (json_at J j k) = s"

definition field_request_id :: "'j json_api \<Rightarrow> 'j \<Rightarrow> string option \<Rightarrow> bool" where
  "field_request_id J j rid \<longleftrightarrow>
     (case rid of None \<Rightarrow> \<not> contains J j ''request_id'' | Some i \<Rightarrow> field_string J j ''request_id'' i)"

text \<open>A message with a type, a verdict and an optional request id.\<close>

definition answer_view :: "'j json_api \<Rightarrow> ('j \<Rightarrow> bool) \<Rightarrow> 'j \<Rightarrow> string \<Rightarrow> bool \<Rightarrow> string option \<Rightarrow> bool" where
  "answer_view J bool_of j ty verdict rid \<longleftrightarrow>
     is_object J j \<and> field_string J j ''type'' ty \<and> bool_of (json_at J j ''ok'') = verdict
     \<and> field_request_id J j rid"

definition participant_view :: "'j json_api \<Rightarrow> Participant \<Rightarrow> 'j \<Rightarrow> bool" where
  "participant_view J p j \<longleftrightarrow>
     is_object J j \<and> field_string J j ''participant_id'' (GetId p) \<and> field_string J j ''display_name'' (GetName p)"

definition error_view :: "'j json_api \<Rightarrow> string \<Rightarrow> 'j \<Rightarrow> bool" where
  "error_view J code j \<longleftrightarrow>
     is_object J j \<and> field_string J j ''code'' code \<and> field_string J j ''message'' (ErrorMessage code)"

definition members_view :: "'j json_api \<Rightarrow> ('j \<Rightarrow> 'j list) \<Rightarrow> RoomCode \<Rightarrow> Participant list \<Rightarrow> 'j \<Rightarrow> bool" where
  "members_view J elements code ps j \<longleftrightarrow>
     field_string J j ''room_code'' code \<and> contains J j ''participants''
     \<and> list_all2 (participant_view J) ps (elements (json_at J j ''participants''))"

fun payload_view :: "'j json_api \<Rightarrow> ('j \<Rightarrow> 'j list) \<Rightarrow> 'j SuccessResponsePayload \<Rightarrow> 'j \<Rightarrow> bool" where
  "payload_view J elements (CreateRoomResponse code p ps) j \<longleftrightarrow>
     members_view J elements code ps j \<and> participant_view J p (json_at J j ''participant'')"
| "payload_view J elements (JoinRoomResponse code p ps) j \<longleftrightarrow>
     members_view J elements code ps j \<and> participant_view J p (json_at J j ''participant'')"
| "payload_view J elements (LeaveRoomResponse code) j \<longleftrightarrow> field_string J j ''room_code'' code"
| "payload_view J elements (SignalingResponse ty code sender target data) j \<longleftrightarrow>
     field_string J j ''room_code'' code"

text \<open>A text that is the answer to a request.\<close>

definition answers :: "'j json_api \<Rightarrow> ('j \<Rightarrow> 'j list) \<Rightarrow> ('j \<Rightarrow> bool) \<Rightarrow> string \<Rightarrow> 'j ControlDispatcherResponse \<Rightarrow> bool" where
  "answers J elements bool_of t resp \<longleftrightarrow> (\<exists>j. json_parse J t = Some j
     \<and> answer_view J bool_of j (ResultType (response_meta resp)) (is_success resp) (request_id (response_meta resp))
     \<and> (case resp of
          SuccessResponse m p \<Rightarrow> payload_view J elements p (json_at J j ''payload'')
        | ErrorResponse m e \<Rightarrow> error_view J (ErrorCode e) (json_at J j ''error'')))"

text \<open>Which messages hold valid UTF-8 only.\<close>

definition participant_utf8 :: "(string \<Rightarrow> bool) \<Rightarrow> Participant \<Rightarrow> bool" where
  "participant_utf8 utf8 p \<longleftrightarrow> utf8 (GetId p) \<and> utf8 (GetName p)"

definition request_id_utf8 :: "(string \<Rightarrow> bool) \<Rightarrow> string option \<Rightarrow> bool" where
  "request_id_utf8 utf8 rid = (case rid of None \<Rightarrow> True | Some i \<Rightarrow> utf8 i)"

fun payload_utf8 :: "(string \<Rightarrow> bool) \<Rightarrow> 'j SuccessResponsePayload \<Rightarrow> bool" where
  "payload_utf8 utf8 (CreateRoomResponse code p ps) \<longleftrightarrow>
     utf8 code \<and> participant_utf8 utf8 p \<and> (\<forall>q \<in> set ps. participant_utf8 utf8 q)"
| "payload_utf8 utf8 (JoinRoomResponse code p ps) \<longleftrightarrow>
     utf8 code \<and> participant_utf8 utf8 p \<and> (\<forall>q \<in> set ps. participant_utf8 utf8 q)"
| "payload_utf8 utf8 (LeaveRoomResponse code) \<longleftrightarrow> utf8 code"
| "payload_utf8 utf8 (SignalingResponse ty code sender target data) \<longleftrightarrow> utf8 code"

fun response_utf8 :: "(string \<Rightarrow> bool) \<Rightarrow> 'j ControlDispatcherResponse \<Rightarrow> bool" where
  "response_utf8 utf8 (SuccessResponse m p) \<longleftrightarrow> request_id_utf8 utf8 (request_id m) \<and> payload_utf8 utf8 p"
| "response_utf8 utf8 (ErrorResponse m e) \<longleftrightarrow> request_id_utf8 utf8 (request_id m)"

fun event_utf8 :: "(string \<Rightarrow> bool) \<Rightarrow> ControlDispatcherEvent \<Rightarrow> bool" where
  "event_utf8 utf8 (JoinedRoomEvent code p ps) \<longleftrightarrow>
     utf8 code \<and> participant_utf8 utf8 p \<and> (\<forall>q \<in> set ps. participant_utf8 utf8 q)"
| "event_utf8 utf8 (LeftRoomEvent code pid ps) \<longleftrightarrow>
     utf8 code \<and> utf8 pid \<and> (\<forall>q \<in> set ps. participant_utf8 utf8 q)"

lemma ascii_literals: "ascii ''code''" "ascii ''message''" "ascii ''payload''" "ascii ''error''"
  "ascii ''type''" "ascii ''ok''" "ascii ''room_code''" "ascii ''participant''" "ascii ''participants''"
  "ascii ''participant_id''" "ascii ''display_name''" "ascii ''request_id''"
  "ascii ''target_participant_id''" "ascii ''from_participant_id''"
  "ascii ''participant_joined''" "ascii ''participant_left''"
  by (simp_all add: ascii_def)

lemma ascii_names: "ascii (SignalingTypeToString t)" "ascii (ErrorCode e)" "ascii (ErrorMessage code)"
  subgoal by (cases t) (simp_all add: ascii_def)
  subgoal by (cases e) (simp_all add: ascii_def)
  subgoal by (simp add: ErrorMessage_def ascii_def)
  done

lemma ascii_ResultType: "ascii (ResultType m)"
  by (auto simp: ResultType_def ascii_names split: ControlMessageType.splits option.splits)
    (simp_all add: ascii_def)

section \<open>Encoding lemmas\<close>

context nlohmann_json
begin

lemma dump_Inr: "ok j \<Longrightarrow> \<exists>t. dump J j = Inr t \<and> json_parse J t = Some j"
  using dump_parse [of j] by (auto simp: dump_def)

lemma assign_keyE:
  assumes "is_object J j" and "ok j" and "ok v" and "ascii k"
  obtains j' where "assign_key J k v j = Inr j'" "is_object J j'" "ok j'"
    "\<And>k'. contains J j' k' \<longleftrightarrow> k' = k \<or> contains J j k'" "json_at J j' k = v"
    "\<And>k'. k' \<noteq> k \<Longrightarrow> contains J j k' \<Longrightarrow> json_at J j' k' = json_at J j k'"
proof (rule set_objectE [OF assms(1), of k v])
  fix j' assume "json_set J j k v = Some j'" "is_object J j'"
    "ok j \<Longrightarrow> ok v \<Longrightarrow> utf8 k \<Longrightarrow> ok j'"
    "\<And>k'. contains J j' k' \<longleftrightarrow> k' = k \<or> contains J j k'" "json_at J j' k = v"
    "\<And>k'. k' \<noteq> k \<Longrightarrow> contains J j k' \<Longrightarrow> json_at J j' k' = json_at J j k'"
  then show ?thesis
    using assms by (intro that [of j']) (simp_all add: assign_key_def ascii_utf8)
qed

text \<open>Objects built from a list of fields.\<close>

lemma object_contains:
  "distinct (map fst kvs) \<Longrightarrow> contains J (json_object J kvs) k \<longleftrightarrow> map_of kvs k \<noteq> None"
  by (simp add: contains_object map_of_eq_None_iff)

lemma object_at:
  "distinct (map fst kvs) \<Longrightarrow> map_of kvs k = Some v \<Longrightarrow> json_at J (json_object J kvs) k = v"
  by (rule at_object) (auto dest: map_of_SomeD)

lemma object_ok:
  "distinct (map fst kvs) \<Longrightarrow> list_all (\<lambda>(k, v). ascii k \<and> ok v) kvs \<Longrightarrow> ok (json_object J kvs)"
  by (rule ok_objectI) (auto simp: list_all_iff ascii_utf8)

lemma object_field_string:
  "distinct (map fst kvs) \<Longrightarrow> map_of kvs k = Some (json_string J s) \<Longrightarrow>
     field_string J (json_object J kvs) k s"
  by (simp add: field_string_def object_contains object_at kinds)

lemmas object_rules = object_contains object_at object_field_string

lemma ok_ascii: "ascii s \<Longrightarrow> ok (json_string J s)"
  by (simp add: ascii_utf8 ok_string)

lemma ParticipantToJson_ok: "participant_utf8 utf8 p \<Longrightarrow> ok (ParticipantToJson J p)"
  by (simp add: ParticipantToJson_def participant_utf8_def object_ok ok_string ascii_def)

lemma ParticipantToJson_view: "participant_view J p (ParticipantToJson J p)"
  by (simp add: participant_view_def ParticipantToJson_def object_kind object_field_string)

lemma ParticipantsToJson_alt:
  "ParticipantsToJson J ps = foldl (push_back J) (empty_array J) (map (ParticipantToJson J) ps)"
  by (simp add: ParticipantsToJson_def foldl_map)

lemma ParticipantsToJson_ok: "\<forall>p \<in> set ps. participant_utf8 utf8 p \<Longrightarrow> ok (ParticipantsToJson J ps)"
  by (simp add: ParticipantsToJson_alt ok_pushed ParticipantToJson_ok)

lemma ParticipantsToJson_view:
  "list_all2 (participant_view J) ps (elements (ParticipantsToJson J ps))"
  by (simp add: ParticipantsToJson_alt elements_pushed list_all2_map2 ParticipantToJson_view list.rel_refl)

lemma error_object_ok: "ascii code \<Longrightarrow> ok (error_object J code) \<and> error_view J code (error_object J code)"
  by (simp add: error_object_def error_view_def object_kind object_field_string object_ok ok_ascii
      ascii_names ascii_literals)

lemma payload_object_ok: "payload_utf8 utf8 p \<Longrightarrow> ok (payload_object J p)"
  by (cases p) (simp_all add: object_ok ok_string ParticipantToJson_ok ParticipantsToJson_ok ascii_def)

lemma payload_object_view: "payload_view J elements p (payload_object J p)"
  by (cases p) (simp_all add: members_view_def object_rules ParticipantToJson_view ParticipantsToJson_view)

lemma assign_request_idE:
  assumes "is_object J j" and "ok j" and "request_id_utf8 utf8 rid" and "\<not> contains J j ''request_id''"
  obtains j' where "assign_request_id J rid j = Inr j'" "is_object J j'" "ok j'" "field_request_id J j' rid"
    "\<And>k'. k' \<noteq> ''request_id'' \<Longrightarrow> contains J j' k' \<longleftrightarrow> contains J j k'"
    "\<And>k'. k' \<noteq> ''request_id'' \<Longrightarrow> contains J j k' \<Longrightarrow> json_at J j' k' = json_at J j k'"
proof (cases rid)
  case None
  with assms show ?thesis by (intro that [of j]) (simp_all add: assign_request_id_def field_request_id_def)
next
  case (Some i)
  have "ok (json_string J i)" using assms(3) Some by (simp add: ok_string request_id_utf8_def)
  from assign_keyE [OF assms(1,2) this, of "''request_id''"]
  obtain j' where "assign_key J ''request_id'' (json_string J i) j = Inr j'" "is_object J j'" "ok j'"
    "\<And>k'. contains J j' k' \<longleftrightarrow> k' = ''request_id'' \<or> contains J j k'"
    "json_at J j' ''request_id'' = json_string J i"
    "\<And>k'. k' \<noteq> ''request_id'' \<Longrightarrow> contains J j k' \<Longrightarrow> json_at J j' k' = json_at J j k'"
    by (auto simp: ascii_def)
  with Some show ?thesis
    by (intro that [of j']) (auto simp: assign_request_id_def field_request_id_def field_string_def kinds)
qed

lemma EncodeResponse_view:
  assumes "response_utf8 utf8 resp"
  obtains t j where "EncodeResponse J resp = Inr t" "json_parse J t = Some j"
    "answer_view J bool_of j (ResultType (response_meta resp)) (is_success resp) (request_id (response_meta resp))"
    "contains J j ''payload'' \<longleftrightarrow> is_success resp" "contains J j ''error'' \<longleftrightarrow> \<not> is_success resp"
    "\<And>m p. resp = SuccessResponse m p \<Longrightarrow> payload_view J elements p (json_at J j ''payload'')"
    "\<And>m e. resp = ErrorResponse m e \<Longrightarrow> error_view J (ErrorCode e) (json_at J j ''error'')"
proof -
  let ?m = "response_meta resp"
  let ?kvs = "[(''type'', json_string J (ResultType ?m)), (''ok'', json_bool J (is_success resp))]"
  let ?json = "json_object J ?kvs"
  define k where "k = (if is_success resp then ''payload'' else ''error'')"
  define v where "v = (case resp of SuccessResponse _ p \<Rightarrow> payload_object J p
    | ErrorResponse _ e \<Rightarrow> error_object J (ErrorCode e))"
  have rid: "request_id_utf8 utf8 (request_id ?m)" and v: "ok v"
    using assms by (cases resp; simp add: v_def payload_object_ok error_object_ok ascii_names)+
  have "ok ?json"
    by (simp add: object_ok ok_ascii ok_bool ascii_ResultType ascii_literals)
  from assign_request_idE [OF object_kind(1) this rid]
  obtain j1 where j1: "assign_request_id J (request_id ?m) ?json = Inr j1" "is_object J j1" "ok j1"
    "field_request_id J j1 (request_id ?m)"
    "\<And>k'. k' \<noteq> ''request_id'' \<Longrightarrow> contains J j1 k' \<longleftrightarrow> contains J ?json k'"
    "\<And>k'. k' \<noteq> ''request_id'' \<Longrightarrow> contains J ?json k' \<Longrightarrow> json_at J j1 k' = json_at J ?json k'"
    by (auto simp: object_contains)
  have "ascii k" by (simp add: k_def ascii_literals)
  from assign_keyE [OF j1(2,3) v this]
  obtain j where j: "assign_key J k v j1 = Inr j" "is_object J j" "ok j"
    "\<And>k'. contains J j k' \<longleftrightarrow> k' = k \<or> contains J j1 k'" "json_at J j k = v"
    "\<And>k'. k' \<noteq> k \<Longrightarrow> contains J j1 k' \<Longrightarrow> json_at J j k' = json_at J j1 k'" by blast
  obtain t where t: "dump J j = Inr t" "json_parse J t = Some j" using dump_Inr [OF j(3)] by blast
  have enc: "EncodeResponse J resp = Inr t"
    using j1(1) j(1) t(1) by (cases resp) (simp_all add: EncodeResponse_def k_def v_def)
  have k: "k \<noteq> ''type''" "k \<noteq> ''ok''" "k \<noteq> ''request_id''" by (simp_all add: k_def)
  have "answer_view J bool_of j (ResultType ?m) (is_success resp) (request_id ?m)"
    using j1(4) k j(2)
    by (auto simp: answer_view_def field_string_def field_request_id_def j j1 object_contains object_at kinds
        split: option.splits)
  moreover have "contains J j ''payload'' \<longleftrightarrow> is_success resp" "contains J j ''error'' \<longleftrightarrow> \<not> is_success resp"
    by (simp_all add: j j1 object_contains k_def)
  moreover have "payload_view J elements p (json_at J j ''payload'')" if "resp = SuccessResponse m p" for m p
    using j(5) that by (simp add: k_def v_def payload_object_view)
  moreover have "error_view J (ErrorCode e) (json_at J j ''error'')" if "resp = ErrorResponse m e" for m e
    using j(5) that by (simp add: k_def v_def error_object_ok ascii_names)
  ultimately show ?thesis using that [OF enc t(2)] by blast
qed

lemma EncodeProtocolError_view:
  assumes "ascii code" and "request_id_utf8 utf8 rid"
    and "\<And>m. mt = Some m \<Longrightarrow> request_id_utf8 utf8 (request_id m)"
  obtains t j where "EncodeProtocolError J mt code rid = Inr t" "json_parse J t = Some j"
    "answer_view J bool_of j (case mt of Some m \<Rightarrow> ResultType m | None \<Rightarrow> ''error'') False
       (case mt of Some m \<Rightarrow> (case request_id m of Some i \<Rightarrow> Some i | None \<Rightarrow> rid) | None \<Rightarrow> rid)"
    "error_view J code (json_at J j ''error'')"
proof -
  let ?ty = "case mt of Some m \<Rightarrow> ResultType m | None \<Rightarrow> ''error''"
  let ?rid = "case mt of Some m \<Rightarrow> (case request_id m of Some i \<Rightarrow> Some i | None \<Rightarrow> rid) | None \<Rightarrow> rid"
  let ?json = "json_object J [(''type'', json_string J ?ty), (''ok'', json_bool J False),
    (''error'', error_object J code)]"
  have "ascii ?ty" by (simp add: ascii_ResultType ascii_literals split: option.splits)
  then have json: "ok ?json" using assms(1)
    by (simp add: object_ok ok_ascii ok_bool error_object_ok ascii_literals)
  have rid: "request_id_utf8 utf8 ?rid"
    using assms(2,3) by (auto split: option.splits)
  have fresh: "\<not> contains J ?json ''request_id''" by (simp add: object_contains)
  from assign_request_idE [OF object_kind(1) json rid fresh]
  obtain j where j: "assign_request_id J ?rid ?json = Inr j" "is_object J j" "ok j"
    "field_request_id J j ?rid"
    "\<And>k'. k' \<noteq> ''request_id'' \<Longrightarrow> contains J j k' \<longleftrightarrow> contains J ?json k'"
    "\<And>k'. k' \<noteq> ''request_id'' \<Longrightarrow> contains J ?json k' \<Longrightarrow> json_at J j k' = json_at J ?json k'"
    by blast
  obtain t where t: "dump J j = Inr t" "json_parse J t = Some j" using dump_Inr [OF j(3)] by blast
  have "EncodeProtocolError J mt code rid = Inr t"
    using j(1) t(1) by (simp add: EncodeProtocolError_def)
  moreover have "answer_view J bool_of j ?ty False ?rid" and "error_view J code (json_at J j ''error'')"
    using assms(1) j(2,4)
    by (simp_all add: answer_view_def field_string_def j(5,6) object_contains object_at kinds error_object_ok)
  ultimately show ?thesis using that t(2) by blast
qed

lemma encoded_pair:
  assumes "ascii ty" and "ok p"
  obtains t j where "dump J (json_object J [(''type'', json_string J ty), (''payload'', p)]) = Inr t"
    "json_parse J t = Some j" "is_object J j" "field_string J j ''type'' ty" "json_at J j ''payload'' = p"
proof -
  let ?j = "json_object J [(''type'', json_string J ty), (''payload'', p)]"
  have "ok ?j" using assms by (simp add: object_ok ok_ascii ascii_literals)
  then obtain t where "dump J ?j = Inr t" "json_parse J t = Some ?j" using dump_Inr by blast
  then show ?thesis
    by (rule that) (simp_all add: object_kind object_field_string object_at)
qed

lemma EncodeEvent_view:
  assumes "event_utf8 utf8 event"
  obtains t j where "EncodeEvent J event = Inr t" "json_parse J t = Some j" "is_object J j"
    "field_string J j ''type'' (case event of JoinedRoomEvent _ _ _ \<Rightarrow> ''participant_joined''
       | LeftRoomEvent _ _ _ \<Rightarrow> ''participant_left'')"
    "case event of
       JoinedRoomEvent code p ps \<Rightarrow> members_view J elements code ps (json_at J j ''payload'')
         \<and> participant_view J p (json_at J (json_at J j ''payload'') ''participant'')
     | LeftRoomEvent code pid ps \<Rightarrow> members_view J elements code ps (json_at J j ''payload'')
         \<and> field_string J (json_at J j ''payload'') ''participant_id'' pid"
proof -
  define code ps where "code = (case event of JoinedRoomEvent c _ _ \<Rightarrow> c | LeftRoomEvent c _ _ \<Rightarrow> c)"
    and "ps = (case event of JoinedRoomEvent _ _ r \<Rightarrow> r | LeftRoomEvent _ _ r \<Rightarrow> r)"
  define k v where "k = (case event of JoinedRoomEvent _ _ _ \<Rightarrow> ''participant'' | LeftRoomEvent _ _ _ \<Rightarrow> ''participant_id'')"
    and "v = (case event of JoinedRoomEvent _ p _ \<Rightarrow> ParticipantToJson J p | LeftRoomEvent _ pid _ \<Rightarrow> json_string J pid)"
  let ?base = "json_object J [(''room_code'', json_string J code), (''participants'', ParticipantsToJson J ps)]"
  let ?ty = "case event of JoinedRoomEvent _ _ _ \<Rightarrow> ''participant_joined'' | LeftRoomEvent _ _ _ \<Rightarrow> ''participant_left''"
  note ev = code_def ps_def k_def v_def
  have "ok ?base" and v: "ok v"
    using assms by (cases event; simp add: ev object_ok ok_string ParticipantsToJson_ok
        ParticipantToJson_ok ascii_literals)+
  moreover have "ascii k" by (cases event) (simp_all add: ev ascii_literals)
  ultimately obtain p where p: "assign_key J k v ?base = Inr p" "is_object J p" "ok p"
    "\<And>k'. contains J p k' \<longleftrightarrow> k' = k \<or> contains J ?base k'" "json_at J p k = v"
    "\<And>k'. k' \<noteq> k \<Longrightarrow> contains J ?base k' \<Longrightarrow> json_at J p k' = json_at J ?base k'"
    using assign_keyE [OF object_kind(1)] by metis
  have "ascii ?ty" by (cases event) (simp_all add: ascii_literals)
  from encoded_pair [OF this p(3)] obtain t j where
    t: "dump J (json_object J [(''type'', json_string J ?ty), (''payload'', p)]) = Inr t"
    "json_parse J t = Some j" "is_object J j" "field_string J j ''type'' ?ty" "json_at J j ''payload'' = p"
    by blast
  have "members_view J elements code ps p"
    by (cases event) (simp_all add: members_view_def field_string_def p(4,6) object_contains object_at kinds
        ParticipantsToJson_view k_def)
  then show ?thesis
    using t p(1,4,5)
    by (intro that [of t j])
      (cases event; simp add: EncodeEvent_def ev ParticipantToJson_view field_string_def kinds)+
qed

text \<open>A relayed signaling message keeps the sender's payload except for the three fields of the server.\<close>

lemma EncodeSignalingEvent_view:
  assumes "is_object J data" and "ok data" and "utf8 code" and "utf8 sender" and "utf8 target"
  obtains t j where "EncodeSignalingEvent J ty code sender target data = Inr t" "json_parse J t = Some j"
    "is_object J j" "field_string J j ''type'' (SignalingTypeToString ty)"
    "field_string J (json_at J j ''payload'') ''room_code'' code"
    "field_string J (json_at J j ''payload'') ''target_participant_id'' target"
    "field_string J (json_at J j ''payload'') ''from_participant_id'' sender"
    "\<And>k. k \<notin> {''room_code'', ''target_participant_id'', ''from_participant_id''} \<Longrightarrow>
       contains J (json_at J j ''payload'') k = contains J data k
       \<and> (contains J data k \<longrightarrow> json_at J (json_at J j ''payload'') k = json_at J data k)"
proof -
  note strings = ok_string [OF assms(3)] ok_string [OF assms(5)] ok_string [OF assms(4)]
  from assign_keyE [OF assms(1,2) strings(1) ascii_literals(7)] obtain p1 where
    p1: "assign_key J ''room_code'' (json_string J code) data = Inr p1" "is_object J p1" "ok p1"
      "\<And>k'. contains J p1 k' \<longleftrightarrow> k' = ''room_code'' \<or> contains J data k'" "json_at J p1 ''room_code'' = json_string J code"
      "\<And>k'. k' \<noteq> ''room_code'' \<Longrightarrow> contains J data k' \<Longrightarrow> json_at J p1 k' = json_at J data k'"
    by blast
  from assign_keyE [OF p1(2,3) strings(2) ascii_literals(13)] obtain p2 where
    p2: "assign_key J ''target_participant_id'' (json_string J target) p1 = Inr p2" "is_object J p2" "ok p2"
      "\<And>k'. contains J p2 k' \<longleftrightarrow> k' = ''target_participant_id'' \<or> contains J p1 k'"
      "json_at J p2 ''target_participant_id'' = json_string J target"
      "\<And>k'. k' \<noteq> ''target_participant_id'' \<Longrightarrow> contains J p1 k' \<Longrightarrow> json_at J p2 k' = json_at J p1 k'"
    by blast
  from assign_keyE [OF p2(2,3) strings(3) ascii_literals(14)] obtain p3 where
    p3: "assign_key J ''from_participant_id'' (json_string J sender) p2 = Inr p3" "is_object J p3" "ok p3"
      "\<And>k'. contains J p3 k' \<longleftrightarrow> k' = ''from_participant_id'' \<or> contains J p2 k'"
      "json_at J p3 ''from_participant_id'' = json_string J sender"
      "\<And>k'. k' \<noteq> ''from_participant_id'' \<Longrightarrow> contains J p2 k' \<Longrightarrow> json_at J p3 k' = json_at J p2 k'"
    by blast
  from encoded_pair [OF ascii_names(1) p3(3), of ty] obtain t j where
    t: "dump J (json_object J [(''type'', json_string J (SignalingTypeToString ty)), (''payload'', p3)]) = Inr t"
    "json_parse J t = Some j" "is_object J j" "field_string J j ''type'' (SignalingTypeToString ty)"
    "json_at J j ''payload'' = p3"
    by blast
  have enc: "EncodeSignalingEvent J ty code sender target data = Inr t"
    by (simp add: EncodeSignalingEvent_def p1(1) p2(1) p3(1) t(1))
  have has: "contains J p3 k \<longleftrightarrow> k \<in> {''room_code'', ''target_participant_id'', ''from_participant_id''} \<or> contains J data k"
    for k using p1(4) [of k] p2(4) [of k] p3(4) [of k] by blast
  have "json_at J p2 ''room_code'' = json_string J code"
    using p2(6) [of "''room_code''"] p1(4) [of "''room_code''"] p1(5) by simp
  then have own: "json_at J p3 ''room_code'' = json_string J code"
    "json_at J p3 ''target_participant_id'' = json_string J target"
    using p3(6) [of "''room_code''"] p3(6) [of "''target_participant_id''"] p2(5)
      p2(4) [of "''room_code''"] p2(4) [of "''target_participant_id''"] p1(4) [of "''room_code''"] by simp_all
  have "json_at J p3 k = json_at J data k"
    if "k \<notin> {''room_code'', ''target_participant_id'', ''from_participant_id''}" "contains J data k" for k
    using p1(4) [of k] p1(6) [of k] p2(4) [of k] p2(6) [of k] p3(6) [of k] that by simp
  with has own p3(5) show ?thesis
    by (intro that [OF enc t(2-4)]) (simp_all add: t(5) field_string_def kinds)
qed

end

section \<open>Decoding lemmas\<close>

text \<open>The participant on whose behalf a command acts.\<close>

fun command_sender :: "'j CommandType \<Rightarrow> ParticipantId" where
  "command_sender (CreateRoomCommand p password) = GetId p"
| "command_sender (JoinRoomCommand code p password) = GetId p"
| "command_sender (LeaveRoomCommand code pid) = pid"
| "command_sender (SignalingCommand ty code sender target data) = sender"

fun command_signaling :: "'j CommandType \<Rightarrow> SignalingType option" where
  "command_signaling (SignalingCommand ty code sender target data) = Some ty"
| "command_signaling _ = None"

definition field_error :: "exn \<Rightarrow> bool" where
  "field_error ex \<longleftrightarrow> ex \<in> {invalid_argument ''missing_field'', invalid_argument ''invalid_field''}"

lemma field_errors:
  "RequiredString J payload k = Inl ex \<Longrightarrow> field_error ex"
  "OptionalString J payload k = Inl ex \<Longrightarrow> field_error ex"
  by (auto simp: RequiredString_def OptionalString_def field_error_def split: if_splits)

lemma decode_command_error: "decode_command J pid ty mt payload = Inl ex \<Longrightarrow> field_error ex"
  by (auto simp: decode_command_def andThen_Inl_iff dest: field_errors split: if_splits)

lemma decode_meta_Some:
  assumes "decode_meta ty = Some mt"
  obtains "ty = ''create_room''" "mt = \<lparr>meta_type = CreateRoom, request_id = None, signaling_type = None\<rparr>"
  | "ty = ''join_room''" "mt = \<lparr>meta_type = JoinRoom, request_id = None, signaling_type = None\<rparr>"
  | "ty = ''leave_room''" "mt = \<lparr>meta_type = LeaveRoom, request_id = None, signaling_type = None\<rparr>"
  | st where "ty = SignalingTypeToString st"
      "mt = \<lparr>meta_type = Signaling, request_id = None, signaling_type = Some st\<rparr>"
  using assms
  by (auto simp: decode_meta_def split: if_splits)

lemma decode_meta_name:
  "decode_meta (SignalingTypeToString st) =
     Some \<lparr>meta_type = Signaling, request_id = None, signaling_type = Some st\<rparr>"
  by (cases st) (simp_all add: decode_meta_def)

lemma signaling_name_neq:
  "SignalingTypeToString st \<noteq> ''create_room''" "SignalingTypeToString st \<noteq> ''join_room''"
  "SignalingTypeToString st \<noteq> ''leave_room''"
  by (cases st; simp)+

text \<open>The successful path, as one chain of equations.\<close>

lemma DecodeRequest_Inr:
  assumes "DecodeRequest J pid message = Inr req"
  obtains json mt where "json_parse J message = Some json" "is_object J json" "contains J json ''type''"
    "is_string J (json_at J json ''type'')" "decode_meta (get_string J (json_at J json ''type'')) = Some mt"
    "meta req = mt\<lparr>request_id :=
       (if contains J json ''request_id'' \<and> is_string J (json_at J json ''request_id'')
        then Some (get_string J (json_at J json ''request_id'')) else None)\<rparr>"
    "contains J json ''payload''" "is_object J (json_at J json ''payload'')"
    "decode_command J pid (get_string J (json_at J json ''type'')) (meta req) (json_at J json ''payload'')
       = Inr (command req)"
proof -
  obtain json where json: "json_parse J message = Some json" "is_object J json" "contains J json ''type''"
    "is_string J (json_at J json ''type'')"
    using assms by (auto simp: DecodeRequest_def split: option.splits if_splits)
  obtain mt where mt: "decode_meta (get_string J (json_at J json ''type'')) = Some mt"
    using assms json by (auto simp: DecodeRequest_def Let_def split: option.splits)
  then have "request_id mt = None" by (rule decode_meta_Some) simp_all
  then show ?thesis
    using assms json mt
    by (intro that [OF json mt])
      (auto simp: DecodeRequest_def Let_def split: if_splits sum.splits exn.splits)
qed

lemma DecodeRequest_shape:
  assumes "DecodeRequest J pid message = Inr req"
  shows "command_sender (command req) = pid
    \<and> command_matches (meta_type (meta req)) (command req)
    \<and> signaling_type (meta req) = command_signaling (command req)"
  using assms
proof (rule DecodeRequest_Inr)
  fix json mt
  assume mt: "decode_meta (get_string J (json_at J json ''type'')) = Some mt"
    and rid: "meta req = mt\<lparr>request_id :=
       (if contains J json ''request_id'' \<and> is_string J (json_at J json ''request_id'')
        then Some (get_string J (json_at J json ''request_id'')) else None)\<rparr>"
    and cmd: "decode_command J pid (get_string J (json_at J json ''type'')) (meta req) (json_at J json ''payload'')
       = Inr (command req)"
  from mt show ?thesis
    by (rule decode_meta_Some)
      (use rid cmd in \<open>auto simp: decode_command_def andThen_Inr_iff signaling_name_neq
          dest: sym [of _ "command req"]\<close>)
qed

text \<open>What a result may contain, given the metadata of its request.\<close>

fun payload_matches :: "RequestMeta \<Rightarrow> 'j SuccessResponsePayload \<Rightarrow> bool" where
  "payload_matches m (CreateRoomResponse code p ps) = (meta_type m = CreateRoom)"
| "payload_matches m (JoinRoomResponse code p ps) = (meta_type m = JoinRoom)"
| "payload_matches m (LeaveRoomResponse code) = (meta_type m = LeaveRoom)"
| "payload_matches m (SignalingResponse ty code sender target data) =
     (meta_type m = Signaling \<and> signaling_type m = Some ty)"

fun event_matches :: "ControlMessageType \<Rightarrow> ControlDispatcherEvent \<Rightarrow> bool" where
  "event_matches ty (JoinedRoomEvent code p ps) = (ty = JoinRoom)"
| "event_matches ty (LeftRoomEvent code pid ps) = (ty = LeaveRoom)"

definition result_typed :: "RequestMeta \<Rightarrow> 'j ControlDispatcherResult \<Rightarrow> bool" where
  "result_typed m res \<longleftrightarrow>
     (case response res of
        ErrorResponse m' e \<Rightarrow> m' = m \<and> events res = []
      | SuccessResponse m' payload \<Rightarrow>
          m' = m \<and> payload_matches m payload \<and> (\<forall>ev \<in> set (events res). event_matches (meta_type m) ev))"

lemma dispatch_switch_typed:
  assumes "fst (dispatch_switch ops draws req r) = Inr res"
    and "signaling_type (meta req) = command_signaling (command req)"
  shows "result_typed (meta req) res"
  using assms
  by (auto simp: result_typed_def dispatch_defs andThen_Inr_iff split: ControlMessageType.splits CommandType.splits
      prod.splits Result.splits ParticipantJoinedRoom.splits ParticipantLeftRoom.splits if_splits)

lemma DecodeRequest_parsed:
  assumes "DecodeRequest J pid message = Inl e" and "json_parse J message = Some j"
  shows "\<exists>mt code rid. e = ProtocolDecodeError mt code rid
    \<and> code \<in> {''invalid_message'', ''missing_field'', ''invalid_field''}"
  using assms decode_command_error [of J pid]
  by (fastforce simp: DecodeRequest_def ProtocolDecodeError_new_def Let_def field_error_def
      split: option.splits if_splits sum.splits exn.splits)

lemma DecodeRequest_classified:
  assumes "DecodeRequest J pid message = Inl e"
  shows "(json_parse J message = None \<longleftrightarrow> e = parse_error \<or> e = other_decode_exn json_out_of_range)
    \<and> (e = parse_error \<longrightarrow> \<not> number_overflows J message)
    \<and> (e = parse_error \<or> e = other_decode_exn json_out_of_range \<or>
       (\<exists>mt code rid. e = ProtocolDecodeError mt code rid
          \<and> code \<in> {''invalid_message'', ''missing_field'', ''invalid_field''}))"
proof (cases "json_parse J message")
  case None
  with assms show ?thesis by (cases "number_overflows J message") (auto simp: DecodeRequest_def)
next
  case (Some j)
  from DecodeRequest_parsed [OF assms this] Some show ?thesis by fastforce
qed

lemma DecodeRequest_error_prefers:
  assumes "DecodeRequest J pid message = Inl (ProtocolDecodeError mt code rid)"
  shows "(case mt of Some m \<Rightarrow> (case request_id m of Some i \<Rightarrow> Some i | None \<Rightarrow> rid) | None \<Rightarrow> rid) = rid"
  using assms
  by (auto simp: DecodeRequest_def ProtocolDecodeError_new_def Let_def
      split: option.splits if_splits sum.splits exn.splits)

text \<open>A request id in an error is one of the message.\<close>

lemma DecodeRequest_error_id:
  assumes "DecodeRequest J pid message = Inl (ProtocolDecodeError mt code rid)"
  obtains j where "json_parse J message = Some j"
    "\<And>i. rid = Some i \<or> (\<exists>m. mt = Some m \<and> request_id m = Some i) \<Longrightarrow>
       contains J j ''request_id'' \<and> is_string J (json_at J j ''request_id'')
       \<and> i = get_string J (json_at J j ''request_id'')"
proof -
  obtain j where j: "json_parse J message = Some j"
    using DecodeRequest_classified [OF assms] by auto
  have none: "request_id m = None" if "decode_meta ty = Some m" for ty m
    using that by (rule decode_meta_Some) simp_all
  show ?thesis
    by (rule that [OF j])
      (use assms j none in \<open>auto simp: DecodeRequest_def ProtocolDecodeError_new_def Let_def
        split: option.splits if_splits sum.splits exn.splits\<close>)
qed

section \<open>Requests as a client writes them\<close>

definition request_name :: "RequestMeta \<Rightarrow> string" where
  "request_name m =
     (case meta_type m of
        CreateRoom \<Rightarrow> ''create_room''
      | JoinRoom \<Rightarrow> ''join_room''
      | LeaveRoom \<Rightarrow> ''leave_room''
      | Signaling \<Rightarrow> (case signaling_type m of Some st \<Rightarrow> SignalingTypeToString st | None \<Rightarrow> []))"

definition optional_field :: "'j json_api \<Rightarrow> string \<Rightarrow> string option \<Rightarrow> (string \<times> 'j) list" where
  "optional_field J k v = (case v of None \<Rightarrow> [] | Some s \<Rightarrow> [(k, json_string J s)])"

fun command_json :: "'j json_api \<Rightarrow> 'j CommandType \<Rightarrow> 'j" where
  "command_json J (CreateRoomCommand p password) =
     json_object J ((''display_name'', json_string J (GetName p)) # optional_field J ''password'' password)"
| "command_json J (JoinRoomCommand code p password) =
     json_object J ((''room_code'', json_string J code) # (''display_name'', json_string J (GetName p))
       # optional_field J ''password'' password)"
| "command_json J (LeaveRoomCommand code pid) = json_object J [(''room_code'', json_string J code)]"
| "command_json J (SignalingCommand ty code sender target data) = data"

definition request_json :: "'j json_api \<Rightarrow> 'j ControlDispatcherRequest \<Rightarrow> 'j" where
  "request_json J req =
     json_object J ((''type'', json_string J (request_name (meta req)))
       # (''payload'', command_json J (command req))
       # optional_field J ''request_id'' (request_id (meta req)))"

definition request_wf :: "'j json_api \<Rightarrow> ParticipantId \<Rightarrow> 'j ControlDispatcherRequest \<Rightarrow> bool" where
  "request_wf J pid req \<longleftrightarrow>
     command_matches (meta_type (meta req)) (command req) \<and> command_sender (command req) = pid
     \<and> signaling_type (meta req) = command_signaling (command req)
     \<and> (case command req of
          SignalingCommand ty code sender target data \<Rightarrow>
            is_object J data \<and> field_string J data ''room_code'' code
            \<and> field_string J data ''target_participant_id'' target
        | _ \<Rightarrow> True)"

context nlohmann_json
begin

lemma RequiredString_field: "field_string J j k s \<Longrightarrow> RequiredString J j k = Inr s"
  by (simp add: RequiredString_def field_string_def)

lemma OptionalString_field:
  "distinct (map fst (kvs @ optional_field J k v)) \<Longrightarrow> map_of kvs k = None \<Longrightarrow>
     OptionalString J (json_object J (kvs @ optional_field J k v)) k = Inr v"
  using object_at [of "kvs @ optional_field J k v" k]
  by (cases v) (simp_all add: OptionalString_def optional_field_def object_contains kinds map_add_def)

lemma decode_command_json:
  assumes "request_wf J pid req"
  shows "decode_command J pid (request_name (meta req)) (meta req) (command_json J (command req))
    = Inr (command req)"
proof (cases "command req")
  case (CreateRoomCommand p password)
  then have ty: "request_name (meta req) = ''create_room''" and p: "Participant_new pid (GetName p) = p"
    using assms by (cases "meta_type (meta req)"; auto simp: request_wf_def request_name_def Participant_new_def)+
  let ?kvs = "[(''display_name'', json_string J (GetName p))]"
  have d: "distinct (map fst (?kvs @ optional_field J ''password'' password))"
    by (cases password) (simp_all add: optional_field_def)
  then have "RequiredString J (json_object J (?kvs @ optional_field J ''password'' password)) ''display_name''
    = Inr (GetName p)"
    by (intro RequiredString_field object_field_string) simp_all
  with OptionalString_field [OF d] show ?thesis
    by (simp add: decode_command_def ty CreateRoomCommand p)
next
  case (JoinRoomCommand code p password)
  then have ty: "request_name (meta req) = ''join_room''" and p: "Participant_new pid (GetName p) = p"
    using assms by (cases "meta_type (meta req)"; auto simp: request_wf_def request_name_def Participant_new_def)+
  let ?kvs = "[(''room_code'', json_string J code), (''display_name'', json_string J (GetName p))]"
  have d: "distinct (map fst (?kvs @ optional_field J ''password'' password))"
    by (cases password) (simp_all add: optional_field_def)
  then have "RequiredString J (json_object J (?kvs @ optional_field J ''password'' password)) ''display_name''
      = Inr (GetName p)"
    "RequiredString J (json_object J (?kvs @ optional_field J ''password'' password)) ''room_code'' = Inr code"
    by (intro RequiredString_field object_field_string; simp)+
  with OptionalString_field [OF d] show ?thesis
    by (simp add: decode_command_def ty JoinRoomCommand p)
next
  case (LeaveRoomCommand code sender)
  then have "request_name (meta req) = ''leave_room''" "sender = pid"
    using assms by (cases "meta_type (meta req)"; auto simp: request_wf_def request_name_def)+
  with LeaveRoomCommand RequiredString_field [OF object_field_string, of "[(''room_code'', json_string J code)]"]
  show ?thesis by (simp add: decode_command_def)
next
  case (SignalingCommand ty code sender target data)
  then have "request_name (meta req) = SignalingTypeToString ty" "signaling_type (meta req) = Some ty"
    "sender = pid" "field_string J data ''room_code'' code" "field_string J data ''target_participant_id'' target"
    using assms by (cases "meta_type (meta req)"; auto simp: request_wf_def request_name_def)+
  with SignalingCommand show ?thesis
    by (simp add: decode_command_def signaling_name_neq RequiredString_field)
qed

lemma decode_meta_request:
  assumes "request_wf J pid req"
  shows "decode_meta (request_name (meta req)) = Some ((meta req)\<lparr>request_id := None\<rparr>)"
  using assms decode_meta_name
  by (cases "meta_type (meta req)"; cases "command req")
    (auto simp: request_wf_def request_name_def decode_meta_def RequestMeta.equality)

lemma command_json_object: "request_wf J pid req \<Longrightarrow> is_object J (command_json J (command req))"
  by (cases "command req") (simp_all add: object_kind request_wf_def)

lemma Decode_request_json:
  assumes "request_wf J pid req" and "json_parse J message = Some (request_json J req)"
  shows "DecodeRequest J pid message = Inr req"
proof -
  let ?kvs = "(''type'', json_string J (request_name (meta req)))
     # (''payload'', command_json J (command req)) # optional_field J ''request_id'' (request_id (meta req))"
  have d: "distinct (map fst ?kvs)"
    by (cases "request_id (meta req)") (simp_all add: optional_field_def)
  have at: "json_at J (request_json J req) ''type'' = json_string J (request_name (meta req))"
    "json_at J (request_json J req) ''payload'' = command_json J (command req)"
    "contains J (request_json J req) ''type''" "contains J (request_json J req) ''payload''"
    "is_object J (request_json J req)"
    using d by (simp_all add: request_json_def object_at object_contains object_kind)
  have rid: "contains J (request_json J req) ''request_id'' \<longleftrightarrow> request_id (meta req) \<noteq> None"
    "request_id (meta req) = Some i \<Longrightarrow> json_at J (request_json J req) ''request_id'' = json_string J i" for i
    using d by (cases "request_id (meta req)";
        simp add: request_json_def object_at object_contains optional_field_def)+
  note parts = decode_meta_request [OF assms(1)] command_json_object [OF assms(1)]
    decode_command_json [OF assms(1)]
  have upd: "(meta req)\<lparr>request_id := i\<rparr> = meta req" if "request_id (meta req) = i" for i
    using that by (cases "meta req") simp
  show ?thesis
    using assms(2) at rid parts
    by (cases "request_id (meta req)") (simp_all add: DecodeRequest_def Let_def kinds upd)
qed

end

section \<open>Properties of the codec\<close>

text \<open>The messages and the JSON operations of the examples.\<close>

definition demo_join_request :: "json ControlDispatcherRequest" where
  "demo_join_request =
     \<lparr>meta = \<lparr>meta_type = JoinRoom, request_id = Some ''r7'', signaling_type = None\<rparr>,
      command = JoinRoomCommand ''000042'' \<lparr>GetId = ''p_2'', GetName = ''Bob''\<rparr> (Some ''s3cret'')\<rparr>"

definition demo_join_text :: string where
  "demo_join_text = print_json (request_json text_api demo_join_request)"

lemma demo_join_parses: "parse_json demo_join_text = Some (request_json text_api demo_join_request)"
  unfolding demo_join_text_def
  by (rule parse_print)
    (simp add: demo_join_request_def request_json_def request_name_def optional_field_def object_of_def
      umap_assign_def byte_in_def)

lemma demo_join_wf: "request_wf text_api ''p_2'' demo_join_request"
  by (simp add: demo_join_request_def request_wf_def)

text \<open>
  C14. A request written by a client is decoded to exactly that request: every text that parses
  to the request's JSON object (type, payload, optional request id and password) gives its
  command and metadata back. For an offer, answer or candidate the whole payload is kept.
\<close>

theorem DecodeRequest_roundtrip:
  assumes "nlohmann_json J utf8 ok elements bool_of"
    and "request_wf J pid req"
    and "json_parse J message = Some (request_json J req)"
  shows "DecodeRequest J pid message = Inr req"
  using assms by (rule nlohmann_json.Decode_request_json)

theorem DecodeRequest_roundtrip_witness:
  "DecodeRequest text_api ''p_2'' demo_join_text = Inr demo_join_request"
  using DecodeRequest_roundtrip [OF text_json.nlohmann_json_axioms demo_join_wf] demo_join_parses by simp

text \<open>
  C24. No client can act for another: whatever a message says, the decoded command acts for the
  participant of the session it came in on. Its shape is the one its type announces, so that the
  dispatcher never meets a command of the wrong kind, and the signaling type in the metadata is
  that of the command.
\<close>

theorem DecodeRequest_acts_for_session:
  assumes "DecodeRequest J pid message = Inr req"
  shows "command_sender (command req) = pid
    \<and> command_matches (meta_type (meta req)) (command req)
    \<and> signaling_type (meta req) = command_signaling (command req)"
  using assms by (rule DecodeRequest_shape)

theorem DecodeRequest_acts_for_session_witness:
  "command_sender (command demo_join_request) = ''p_2''"
proof -
  have "DecodeRequest text_api ''p_2'' demo_join_text = Inr demo_join_request"
    by (rule text_json.Decode_request_json [OF demo_join_wf]) (simp add: demo_join_parses)
  from DecodeRequest_acts_for_session [OF this] show ?thesis by blast
qed

text \<open>
  C25. Requests and results have the type their metadata names: a decoded request always reaches
  the alternative of the variant that the dispatcher reads, so that \<^verbatim>\<open>std::get\<close> never throws,
  and the result has the metadata of the request, the payload of its message type (with its
  signaling type), and only events that go with it; errors have none.
\<close>

theorem decoded_requests_well_typed:
  assumes "DecodeRequest J pid message = Inr req" and "InMemory_invar r"
  shows "\<exists>res r'. dispatch_switch (mem_ops ord) draws req r = (Inr res, r') \<and> result_typed (meta req) res"
proof -
  obtain out r' where run: "dispatch_switch (mem_ops ord) draws req r = (out, r')" by fastforce
  have shape: "command_matches (meta_type (meta req)) (command req)"
    "signaling_type (meta req) = command_signaling (command req)"
    using DecodeRequest_shape [OF assms(1)] by blast+
  from service.dispatch_switch_refines [OF assms(2) shape(1), of ord draws] run
  obtain res where "out = Inr res" by auto
  with dispatch_switch_typed [OF _ shape(2), of "mem_ops ord" draws r res] run show ?thesis by simp
qed

theorem decoded_requests_well_typed_witness:
  "\<exists>res r'. dispatch_switch (mem_ops stored_order) (\<lambda>i. i) demo_join_request demo_store = (Inr res, r')
     \<and> result_typed (meta demo_join_request) res"
proof -
  have "DecodeRequest text_api ''p_2'' demo_join_text = Inr demo_join_request"
    by (rule text_json.Decode_request_json [OF demo_join_wf]) (simp add: demo_join_parses)
  from decoded_requests_well_typed [OF this demo_store_invar] show ?thesis .
qed

text \<open>
  C30. Whatever arrives, decoding ends in one of three ways: a request, an exception of the
  library's parser (exactly for texts it does not read: a parse error, or out of range for a number
  that is too large), or a protocol error with one of three codes. No other exception leaves the
  decoder.
\<close>

theorem DecodeRequest_errors:
  assumes "DecodeRequest J pid message = Inl e"
  shows "(json_parse J message = None \<longleftrightarrow> e = parse_error \<or> e = other_decode_exn json_out_of_range)
    \<and> (e = parse_error \<longrightarrow> \<not> number_overflows J message)
    \<and> (e = parse_error \<or> e = other_decode_exn json_out_of_range \<or>
       (\<exists>mt code rid. e = ProtocolDecodeError mt code rid
          \<and> code \<in> {''invalid_message'', ''missing_field'', ''invalid_field''}))"
  using assms by (rule DecodeRequest_classified)

theorem DecodeRequest_errors_witness:
  "DecodeRequest text_api ''p_2'' ''{}x'' = Inl parse_error \<and> json_parse text_api ''{}x'' = None"
proof -
  have "DecodeRequest text_api ''p_2'' ''{}x'' = Inl parse_error"
    by (simp add: DecodeRequest_def parse_json_def)
  with DecodeRequest_errors [OF this] show ?thesis by blast
qed

text \<open>
  The request id of a message is never lost: when a JSON object with a textual type has a
  textual request id, then that id is in the decoded request's metadata or in the error, whichever
  of the later checks fails.
\<close>

theorem DecodeRequest_keeps_request_id:
  assumes "json_parse J message = Some j" and "is_object J j"
    and "field_string J j ''type'' ty" and "field_string J j ''request_id'' rid"
  shows "case DecodeRequest J pid message of
      Inr req \<Rightarrow> request_id (meta req) = Some rid
    | Inl e \<Rightarrow> \<exists>mt code. e = ProtocolDecodeError mt code (Some rid)"
  using assms decode_command_error [of J pid]
  by (fastforce simp: DecodeRequest_def ProtocolDecodeError_new_def Let_def field_error_def field_string_def
      split: option.splits if_splits sum.splits exn.splits)

theorem DecodeRequest_keeps_request_id_witness:
  "\<exists>mt code. DecodeRequest text_api ''p_2''
     (print_json (JObj [(''type'', JStr ''fly''), (''request_id'', JStr ''r9'')]))
     = Inl (ProtocolDecodeError mt code (Some ''r9''))"
proof -
  let ?j = "JObj [(''type'', JStr ''fly''), (''request_id'', JStr ''r9'')]"
  have parse: "json_parse text_api (print_json ?j) = Some ?j"
    unfolding text_api_sel by (rule parse_print) (simp add: byte_in_def)
  have "DecodeRequest text_api ''p_2'' (print_json ?j) \<noteq> Inr req" for req
    unfolding DecodeRequest_def parse option.case by (simp add: decode_meta_def)
  with DecodeRequest_keeps_request_id [OF parse, of "''fly''" "''r9''" "''p_2''"] show ?thesis
    by (cases "DecodeRequest text_api ''p_2'' (print_json ?j)") (auto simp: field_string_def)
qed

text \<open>
  C28. Every response made of valid UTF-8 text can be written, and the client reads back exactly
  what was meant: the result type of the request, the verdict, the request id (present exactly
  when the request had one), and either the error with code and message or the payload, never
  both. Create and join results list the participants in the room's order.
\<close>

theorem EncodeResponse_readable:
  assumes "nlohmann_json J utf8 ok elements bool_of" and "response_utf8 utf8 resp"
  shows "\<exists>t j. EncodeResponse J resp = Inr t \<and> json_parse J t = Some j
    \<and> answer_view J bool_of j (ResultType (response_meta resp)) (is_success resp)
        (request_id (response_meta resp))
    \<and> (contains J j ''payload'' \<longleftrightarrow> is_success resp) \<and> (contains J j ''error'' \<longleftrightarrow> \<not> is_success resp)
    \<and> (case resp of
         SuccessResponse m p \<Rightarrow> payload_view J elements p (json_at J j ''payload'')
       | ErrorResponse m e \<Rightarrow> error_view J (ErrorCode e) (json_at J j ''error''))"
proof (rule nlohmann_json.EncodeResponse_view [OF assms])
  fix t j
  assume "EncodeResponse J resp = Inr t" "json_parse J t = Some j"
    "answer_view J bool_of j (ResultType (response_meta resp)) (is_success resp) (request_id (response_meta resp))"
    "contains J j ''payload'' \<longleftrightarrow> is_success resp" "contains J j ''error'' \<longleftrightarrow> \<not> is_success resp"
    "\<And>m p. resp = SuccessResponse m p \<Longrightarrow> payload_view J elements p (json_at J j ''payload'')"
    "\<And>m e. resp = ErrorResponse m e \<Longrightarrow> error_view J (ErrorCode e) (json_at J j ''error'')"
  then show ?thesis
    by (intro exI [of _ t] exI [of _ j]) (simp split: ControlDispatcherResponse.splits)
qed

theorem EncodeResponse_readable_witness:
  "\<exists>t j. EncodeResponse text_api
       (ErrorResponse \<lparr>meta_type = JoinRoom, request_id = Some ''r7'', signaling_type = None\<rparr>
          WrongPasswordResponse) = Inr t
     \<and> json_parse text_api t = Some j \<and> field_string text_api j ''type'' ''join_room_result''
     \<and> error_view text_api ''wrong_password'' (json_at text_api j ''error'')"
  using EncodeResponse_readable [OF text_json.nlohmann_json_axioms,
      of "ErrorResponse \<lparr>meta_type = JoinRoom, request_id = Some ''r7'', signaling_type = None\<rparr>
          WrongPasswordResponse :: json ControlDispatcherResponse"]
  by (auto simp: request_id_utf8_def byte_in_def answer_view_def ResultType_def simp del: text_api_sel)

text \<open>
  C29. Every event made of valid UTF-8 text can be written, and the receiver reads back its type,
  the room, the list of participants and who joined or left.
\<close>

theorem EncodeEvent_readable:
  assumes "nlohmann_json J utf8 ok elements bool_of" and "event_utf8 utf8 event"
  shows "\<exists>t j. EncodeEvent J event = Inr t \<and> json_parse J t = Some j
    \<and> field_string J j ''type'' (case event of JoinedRoomEvent _ _ _ \<Rightarrow> ''participant_joined''
        | LeftRoomEvent _ _ _ \<Rightarrow> ''participant_left'')
    \<and> (case event of
         JoinedRoomEvent code p ps \<Rightarrow> members_view J elements code ps (json_at J j ''payload'')
           \<and> participant_view J p (json_at J (json_at J j ''payload'') ''participant'')
       | LeftRoomEvent code pid ps \<Rightarrow> members_view J elements code ps (json_at J j ''payload'')
           \<and> field_string J (json_at J j ''payload'') ''participant_id'' pid)"
  using nlohmann_json.EncodeEvent_view [OF assms] by metis

theorem EncodeEvent_readable_witness:
  "\<exists>t j. EncodeEvent text_api (LeftRoomEvent ''000042'' ''p_1'' []) = Inr t
     \<and> json_parse text_api t = Some j \<and> field_string text_api j ''type'' ''participant_left''
     \<and> field_string text_api (json_at text_api j ''payload'') ''participant_id'' ''p_1''"
  using EncodeEvent_readable [OF text_json.nlohmann_json_axioms, of "LeftRoomEvent ''000042'' ''p_1'' []"]
  by (auto simp: byte_in_def simp del: text_api_sel)

text \<open>
  C26. A relayed offer, answer or candidate cannot carry a forged sender: in the message that the
  target receives, room, target and sender are those of the authorised command, whatever the
  payload said, and every other field is the sender's own, unchanged.
\<close>

theorem EncodeSignalingEvent_not_forged:
  assumes "nlohmann_json J utf8 ok elements bool_of" and "is_object J data" and "ok data"
    and "utf8 code" and "utf8 sender" and "utf8 target"
  shows "\<exists>t j. EncodeSignalingEvent J ty code sender target data = Inr t \<and> json_parse J t = Some j
    \<and> field_string J j ''type'' (SignalingTypeToString ty)
    \<and> field_string J (json_at J j ''payload'') ''room_code'' code
    \<and> field_string J (json_at J j ''payload'') ''target_participant_id'' target
    \<and> field_string J (json_at J j ''payload'') ''from_participant_id'' sender
    \<and> (\<forall>k. k \<notin> {''room_code'', ''target_participant_id'', ''from_participant_id''} \<longrightarrow>
         contains J (json_at J j ''payload'') k = contains J data k
         \<and> (contains J data k \<longrightarrow> json_at J (json_at J j ''payload'') k = json_at J data k))"
  by (rule nlohmann_json.EncodeSignalingEvent_view [OF assms]) blast

theorem EncodeSignalingEvent_not_forged_witness:
  "\<exists>t j. EncodeSignalingEvent text_api Offer ''000042'' ''p_1'' ''p_2''
       (JObj [(''from_participant_id'', JStr ''p_3''), (''sdp'', JStr ''v=0'')]) = Inr t
     \<and> json_parse text_api t = Some j
     \<and> field_string text_api (json_at text_api j ''payload'') ''from_participant_id'' ''p_1''
     \<and> json_at text_api (json_at text_api j ''payload'') ''sdp'' = JStr ''v=0''"
proof -
  let ?data = "JObj [(''from_participant_id'', JStr ''p_3''), (''sdp'', JStr ''v=0'')]"
  have data: "is_object text_api ?data" "ok_json ?data" "contains text_api ?data ''sdp''"
    "json_at text_api ?data ''sdp'' = JStr ''v=0''"
    by (simp_all add: byte_in_def)
  have "valid_utf8 ''000042''" "valid_utf8 ''p_1''" "valid_utf8 ''p_2''" by (simp_all add: byte_in_def)
  with EncodeSignalingEvent_not_forged [OF text_json.nlohmann_json_axioms, OF data(1,2),
      of "''000042''" "''p_1''" "''p_2''" Offer]
  obtain t j where t: "EncodeSignalingEvent text_api Offer ''000042'' ''p_1'' ''p_2'' ?data = Inr t"
    "json_parse text_api t = Some j"
    "field_string text_api (json_at text_api j ''payload'') ''from_participant_id'' ''p_1''"
    "\<forall>k. k \<notin> {''room_code'', ''target_participant_id'', ''from_participant_id''} \<longrightarrow>
       contains text_api (json_at text_api j ''payload'') k = contains text_api ?data k
       \<and> (contains text_api ?data k \<longrightarrow> json_at text_api (json_at text_api j ''payload'') k = json_at text_api ?data k)"
    by blast
  have "''sdp'' \<notin> {''room_code'', ''target_participant_id'', ''from_participant_id''}" by simp
  from t(4) [THEN spec, THEN mp, OF this, THEN conjunct2, THEN mp, OF data(3)] data(4)
  have sdp: "json_at text_api (json_at text_api j ''payload'') ''sdp'' = JStr ''v=0''" by (rule trans)
  from t(1-3) sdp show ?thesis by (intro exI conjI)
qed

text \<open>
  Clients can tell the errors apart: different service errors get different codes, and every
  code but \<^verbatim>\<open>internal_error\<close> has a message of its own. The request errors of the decoder have
  codes that no service error has.
\<close>

theorem error_codes_distinguish:
  "(ErrorCode (MapServiceError e1) = ErrorCode (MapServiceError e2) \<longleftrightarrow> err_type e1 = err_type e2)
   \<and> (ErrorMessage (ErrorCode (MapServiceError e1)) = ErrorMessage (ErrorCode (MapServiceError e2))
        \<longleftrightarrow> err_type e1 = err_type e2)
   \<and> (ErrorMessage (ErrorCode (MapServiceError e1)) = ''Internal server error.''
        \<longleftrightarrow> err_type e1 = InternalError)
   \<and> ErrorCode (MapServiceError e1) \<notin> {''invalid_json'', ''invalid_message'', ''missing_field'', ''invalid_field''}"
  by (cases "err_type e1"; cases "err_type e2") (simp_all add: MapServiceError_def ErrorMessage_def)

end
