(* ===== verification/Registry.thy ===== *)
theory Registry
  imports Rooms
begin

text \<open>
  The table of connected sessions, src/net/SessionRegistry.cpp. A session object is named by its
  address; a null pointer is \<open>None\<close>. Every method holds the mutex for its whole body, so each one
  is a single step. The locale \<open>session_registry\<close> is what the sessions rely on.
\<close>

type_synonym address = nat
type_synonym SessionRegistry = "address umap"

definition SessionRegistry_new :: SessionRegistry where
  "SessionRegistry_new = []"

text \<open>\<open>id_of\<close> is \<^verbatim>\<open>session->GetParticipantId()\<close>.\<close>

definition SessionRegistry_Add ::
  "(address \<Rightarrow> ParticipantId) \<Rightarrow> address option \<Rightarrow> SessionRegistry \<Rightarrow> SessionRegistry"
where
  "SessionRegistry_Add id_of session reg =
     (case session of
        None \<Rightarrow> reg
      | Some s \<Rightarrow> umap_assign (id_of s) s reg)"

definition SessionRegistry_Remove :: "ParticipantId \<Rightarrow> SessionRegistry \<Rightarrow> SessionRegistry" where
  "SessionRegistry_Remove pid reg = snd (umap_erase pid reg)"

definition SessionRegistry_Find :: "ParticipantId \<Rightarrow> SessionRegistry \<Rightarrow> address option" where
  "SessionRegistry_Find pid reg =
     (case map_of reg pid of
        None \<Rightarrow> None
      | Some s \<Rightarrow> Some s)"

definition SessionRegistry_GetParticipantIds :: "hash_order \<Rightarrow> SessionRegistry \<Rightarrow> ParticipantId list" where
  "SessionRegistry_GetParticipantIds ord reg = visit ord (map fst reg)"

section \<open>Contract\<close>

locale session_registry =
  fixes add :: "(address \<Rightarrow> ParticipantId) \<Rightarrow> address option \<Rightarrow> 'reg \<Rightarrow> 'reg"
    and remove :: "ParticipantId \<Rightarrow> 'reg \<Rightarrow> 'reg"
    and find_session :: "ParticipantId \<Rightarrow> 'reg \<Rightarrow> address option"
    and ids :: "'reg \<Rightarrow> ParticipantId list"
    and invar :: "'reg \<Rightarrow> bool"
  assumes find_add: "find_session pid (add id_of (Some s) reg) =
      (if pid = id_of s then Some s else find_session pid reg)"
    and add_null: "add id_of None reg = reg"
    and find_remove: "find_session pid (remove q reg) = (if pid = q then None else find_session pid reg)"
    and ids_find: "invar reg \<Longrightarrow> distinct (ids reg) \<and> set (ids reg) = {pid. find_session pid reg \<noteq> None}"
    and invar_add: "invar reg \<Longrightarrow> invar (add id_of session reg)"
    and invar_remove: "invar reg \<Longrightarrow> invar (remove pid reg)"
begin

text \<open>
  The registry mirrors the sessions that are marked as registered, as long as no two sessions
  have the same id.
\<close>

definition mirrors :: "(address \<Rightarrow> ParticipantId) \<Rightarrow> (address \<Rightarrow> bool) \<Rightarrow> 'reg \<Rightarrow> bool" where
  "mirrors id_of live reg \<longleftrightarrow> (\<forall>pid s. find_session pid reg = Some s \<longleftrightarrow> live s \<and> id_of s = pid)"

lemma mirrors_add:
  assumes "mirrors id_of live reg" and "\<And>t. live t \<Longrightarrow> id_of t = id_of s \<Longrightarrow> t = s"
  shows "mirrors id_of (live(s := True)) (add id_of (Some s) reg)"
proof -
  have "find_session pid (add id_of (Some s) reg) = Some t \<longleftrightarrow> (live(s := True)) t \<and> id_of t = pid" for pid t
    using assms by (cases "t = s") (auto simp: find_add mirrors_def)
  then show ?thesis by (simp add: mirrors_def)
qed

lemma mirrors_remove:
  assumes "mirrors id_of live reg" and "live s"
  shows "mirrors id_of (live(s := False)) (remove (id_of s) reg)"
proof -
  have "find_session (id_of s) reg = Some s" using assms by (simp add: mirrors_def)
  then have "live t \<Longrightarrow> id_of t = id_of s \<Longrightarrow> t = s" for t
    using assms(1) by (metis mirrors_def option.inject)
  then have "find_session pid (remove (id_of s) reg) = Some t \<longleftrightarrow> (live(s := False)) t \<and> id_of t = pid" for pid t
    using assms(1) by (cases "pid = id_of s") (auto simp: find_remove mirrors_def)
  then show ?thesis by (simp add: mirrors_def)
qed

end

lemma SessionRegistry_Find_map [simp]: "SessionRegistry_Find pid reg = map_of reg pid"
  by (simp add: SessionRegistry_Find_def split: option.split)

lemmas registry_ops [net_defs] =
  SessionRegistry_Add_def SessionRegistry_Remove_def SessionRegistry_GetParticipantIds_def

interpretation reg: session_registry SessionRegistry_Add SessionRegistry_Remove SessionRegistry_Find
    "SessionRegistry_GetParticipantIds ord" umap_wf for ord
proof
  fix r :: SessionRegistry assume "umap_wf r"
  then show "distinct (SessionRegistry_GetParticipantIds ord r)
    \<and> set (SessionRegistry_GetParticipantIds ord r) = {pid. SessionRegistry_Find pid r \<noteq> None}"
    by (auto simp: net_defs umap_wf_def map_of_eq_None_iff)
qed (auto simp: net_defs split: option.splits)

section \<open>Properties of the registry\<close>

datatype RegistryCall = CallAdd "address option" | CallRemove ParticipantId

fun registry_call :: "(address \<Rightarrow> ParticipantId) \<Rightarrow> RegistryCall \<Rightarrow> SessionRegistry \<Rightarrow> SessionRegistry" where
  "registry_call id_of (CallAdd session) reg = SessionRegistry_Add id_of session reg"
| "registry_call id_of (CallRemove pid) reg = SessionRegistry_Remove pid reg"

text \<open>The last call about a participant, in a history that is written last call first.\<close>

fun last_session :: "(address \<Rightarrow> ParticipantId) \<Rightarrow> ParticipantId \<Rightarrow> RegistryCall list \<Rightarrow> address option" where
  "last_session id_of pid [] = None"
| "last_session id_of pid (CallAdd (Some s) # calls) =
     (if id_of s = pid then Some s else last_session id_of pid calls)"
| "last_session id_of pid (CallAdd None # calls) = last_session id_of pid calls"
| "last_session id_of pid (CallRemove q # calls) =
     (if q = pid then None else last_session id_of pid calls)"

lemma umap_wf_calls: "umap_wf (foldr (registry_call id_of) calls SessionRegistry_new)"
proof (induction calls)
  case (Cons c calls)
  then show ?case by (cases c) (simp_all add: reg.invar_add reg.invar_remove)
qed (simp add: SessionRegistry_new_def)

lemma find_calls:
  "map_of (foldr (registry_call id_of) calls SessionRegistry_new) pid = last_session id_of pid calls"
  by (induction id_of pid calls rule: last_session.induct)
    (auto simp: SessionRegistry_new_def net_defs)

text \<open>
  C39. The registry behaves as a table from participant ids to sessions: after any sequence of
  additions (null pointers included) and removals, a participant is found exactly when its last
  operation was an addition, with the session added then, and \<^verbatim>\<open>GetParticipantIds\<close> lists
  exactly the ids that are found, once each, whatever the iteration order.
\<close>

theorem registry_finds_last_added:
  "SessionRegistry_Find pid (foldr (registry_call id_of) calls SessionRegistry_new)
      = last_session id_of pid calls
   \<and> distinct (SessionRegistry_GetParticipantIds ord (foldr (registry_call id_of) calls SessionRegistry_new))
   \<and> set (SessionRegistry_GetParticipantIds ord (foldr (registry_call id_of) calls SessionRegistry_new))
      = {q. last_session id_of q calls \<noteq> None}"
  using reg.ids_find [OF umap_wf_calls, of ord id_of calls] by (simp add: find_calls)

end
