(* ===== verification/Session.thy ===== *)
theory Session
  imports Codec Registry
begin

text \<open>
  The sessions, src/net/Session.cpp and include/buzzweb/net/Session.hpp: message handling, event
  delivery, the write queue and the life cycle of a connection.

  A session object is a record at an address. What the Asio and Beast libraries do is represented
  by the asynchronous operations that a session has started and that have not completed
  (\<open>pending\<close>), by the queue of tasks handed to \<^verbatim>\<open>boost::asio::post\<close> (\<open>posted\<close>), which the one
  thread of the server runs in order, and by the texts whose write has completed (\<open>wire\<close>).
  An operation that throws returns the exception beside the state it leaves behind. Log lines
  are left out.
\<close>

section \<open>State\<close>

datatype AsyncOp =
    AsyncHandshake
  | AsyncAccept
  | AsyncRead
  | AsyncWrite string
  | AsyncClose

record Session =
  participant_id :: ParticipantId
  is_ssl :: bool
  registered :: bool
  closing :: bool
  write_queue :: "string list"
  pending :: "AsyncOp list"
  is_open :: bool
  socket_open :: bool
  wire :: "string list"

datatype Task = SendTask address string | CloseTask address

record Net =
  heap :: "address \<Rightarrow> Session"
  next_address :: address
  registry :: SessionRegistry
  posted :: "Task list"

definition modify :: "address \<Rightarrow> (Session \<Rightarrow> Session) \<Rightarrow> Net \<Rightarrow> Net" where
  "modify s f n = n\<lparr>heap := (heap n)(s := f (heap n s))\<rparr>"

text \<open>Starting an asynchronous operation.\<close>

definition start_async :: "address \<Rightarrow> AsyncOp \<Rightarrow> Net \<Rightarrow> Net" where
  "start_async s op = modify s (\<lambda>x. x\<lparr>pending := pending x @ [op]\<rparr>)"

definition GenerateParticipantId :: "64 word \<Rightarrow> ParticipantId" where
  "GenerateParticipantId draw = ''p_'' @ setw_fill 16 CHR ''0'' (show_base 16 (unat draw))"

text \<open>The constructors of \<^verbatim>\<open>SessionBase\<close>, \<^verbatim>\<open>Session\<close>, \<^verbatim>\<open>PlainSession\<close> and \<^verbatim>\<open>SslSession\<close>.\<close>

definition Session_new :: "bool \<Rightarrow> 64 word \<Rightarrow> Session" where
  "Session_new ssl draw =
     \<lparr>participant_id = GenerateParticipantId draw, is_ssl = ssl, registered = False, closing = False,
      write_queue = [], pending = [], is_open = False, socket_open = True, wire = []\<rparr>"

definition GetParticipantId :: "Net \<Rightarrow> address \<Rightarrow> ParticipantId" where
  "GetParticipantId n s = participant_id (heap n s)"

section \<open>Sending\<close>

definition Send :: "address \<Rightarrow> string \<Rightarrow> Net \<Rightarrow> Net" where
  "Send s message n = n\<lparr>posted := posted n @ [SendTask s message]\<rparr>"

definition Close :: "address \<Rightarrow> Net \<Rightarrow> Net" where
  "Close s n = n\<lparr>posted := posted n @ [CloseTask s]\<rparr>"

definition DoWrite :: "address \<Rightarrow> Net \<Rightarrow> Net" where
  "DoWrite s n =
     (if write_queue (heap n s) = [] \<or> closing (heap n s) then n
      else start_async s (AsyncWrite (hd (write_queue (heap n s)))) n)"

text \<open>The task that \<^verbatim>\<open>Send\<close> posts.\<close>

definition run_send :: "address \<Rightarrow> string \<Rightarrow> Net \<Rightarrow> Net" where
  "run_send s message n =
     (let writing = write_queue (heap n s) \<noteq> [];
          n' = modify s (\<lambda>x. x\<lparr>write_queue := write_queue x @ [message]\<rparr>) n
      in if \<not> writing then DoWrite s n' else n')"

section \<open>Events and results\<close>

definition deliver_to :: "(Participant \<Rightarrow> bool) \<Rightarrow> string \<Rightarrow> Participant \<Rightarrow> Net \<Rightarrow> Net" where
  "deliver_to skip encoded participant n =
     (if skip participant then n
      else case SessionRegistry_Find (GetId participant) (registry n) of
        None \<Rightarrow> n
      | Some session \<Rightarrow> Send session encoded n)"

fun event_receivers :: "ControlDispatcherEvent \<Rightarrow> Participant list" where
  "event_receivers (JoinedRoomEvent code p receivers) = receivers"
| "event_receivers (LeftRoomEvent code pid receivers) = receivers"

text \<open>The joined participant is skipped; of a left event, nobody is.\<close>

fun event_skips :: "ControlDispatcherEvent \<Rightarrow> Participant \<Rightarrow> bool" where
  "event_skips (JoinedRoomEvent code p receivers) q = (GetId q = GetId p)"
| "event_skips (LeftRoomEvent code pid receivers) q = False"

fun DeliverEvents :: "'j json_api \<Rightarrow> ControlDispatcherEvent list \<Rightarrow> Net \<Rightarrow> exn option \<times> Net" where
  "DeliverEvents J [] n = (None, n)"
| "DeliverEvents J (event # evs) n =
     (case EncodeEvent J event of
        Inl ex \<Rightarrow> (Some ex, n)
      | Inr encoded \<Rightarrow>
          DeliverEvents J evs (foldl (\<lambda>n' p. deliver_to (event_skips event) encoded p n') n
            (event_receivers event)))"

text \<open>
  The callback that \<^verbatim>\<open>HandleMessage\<close> gives to the dispatcher: \<open>answer\<close> is its common end,
  the response and then the events.
\<close>

definition answer :: "'j json_api \<Rightarrow> address \<Rightarrow> 'j ControlDispatcherResult \<Rightarrow> Net \<Rightarrow> exn option \<times> Net" where
  "answer J s result n =
     (case EncodeResponse J (response result) of
        Inl ex \<Rightarrow> (Some ex, n)
      | Inr text \<Rightarrow> DeliverEvents J (events result) (Send s text n))"

definition on_result :: "'j json_api \<Rightarrow> address \<Rightarrow> ('j, Net) Handler" where
  "on_result J s result n =
     (case response result of
        SuccessResponse mt (SignalingResponse ty code sender target data) \<Rightarrow>
          (case SessionRegistry_Find target (registry n) of
             None \<Rightarrow>
               (case EncodeResponse J (ErrorResponse mt ParticipantUnavailableResponse
                        :: 'j ControlDispatcherResponse) of
                  Inl ex \<Rightarrow> (Some ex, n)
                | Inr text \<Rightarrow> (None, Send s text n))
           | Some t \<Rightarrow>
               (case EncodeSignalingEvent J ty code sender target data of
                  Inl ex \<Rightarrow> (Some ex, n)
                | Inr text \<Rightarrow> answer J s result (Send t text n)))
      | _ \<Rightarrow> answer J s result n)"

section \<open>Messages\<close>

definition send_protocol_error ::
  "'j json_api \<Rightarrow> address \<Rightarrow> RequestMeta option \<Rightarrow> string \<Rightarrow> string option \<Rightarrow> Net \<Rightarrow> exn option \<times> Net"
where
  "send_protocol_error J s mt code rid n =
     (case EncodeProtocolError J mt code rid of
        Inl ex \<Rightarrow> (Some ex, n)
      | Inr text \<Rightarrow> (None, Send s text n))"

text \<open>
  The catch clauses in their order; \<^verbatim>\<open>ProtocolDecodeError\<close> derives from
  \<^verbatim>\<open>std::invalid_argument\<close>.
\<close>

definition HandleMessage ::
  "('r, UpdateCaptures) RoomRepository \<Rightarrow> 'j json_api \<Rightarrow> (nat \<Rightarrow> nat) \<Rightarrow> address \<Rightarrow> string
     \<Rightarrow> 'r \<Rightarrow> Net \<Rightarrow> exn option \<times> 'r \<times> Net"
where
  "HandleMessage ops J draws s message r n =
     (case DecodeRequest J (participant_id (heap n s)) message of
        Inl parse_error \<Rightarrow>
          (let (out, n') = send_protocol_error J s None ''invalid_json'' None n in (out, r, n'))
      | Inl (ProtocolDecodeError mt code rid) \<Rightarrow>
          (let (out, n') = send_protocol_error J s mt code rid n in (out, r, n'))
      | Inl (other_decode_exn (invalid_argument w)) \<Rightarrow>
          (let (out, n') = send_protocol_error J s None w None n in (out, r, n'))
      | Inl (other_decode_exn ex) \<Rightarrow>
          (let (out, n') = send_protocol_error J s None ''invalid_message'' None n in (out, r, n'))
      | Inr request \<Rightarrow> Dispatch ops draws request (Some (on_result J s)) r n)"

definition InvalidMessageError :: "'j json_api \<Rightarrow> exn + string" where
  "InvalidMessageError J = EncodeProtocolError J None ''invalid_message'' None"

section \<open>Life cycle\<close>

text \<open>
  The virtual function \<^verbatim>\<open>CloseLowestLayer\<close> closes the TCP socket, which is the next layer of a
  plain WebSocket stream and the one after it of a TLS stream.
\<close>

definition PlainSession_CloseLowestLayer :: "address \<Rightarrow> Net \<Rightarrow> Net" where
  "PlainSession_CloseLowestLayer s = modify s (\<lambda>x. x\<lparr>socket_open := False\<rparr>)"

definition SslSession_CloseLowestLayer :: "address \<Rightarrow> Net \<Rightarrow> Net" where
  "SslSession_CloseLowestLayer s = modify s (\<lambda>x. x\<lparr>socket_open := False\<rparr>)"

definition CloseLowestLayer :: "address \<Rightarrow> Net \<Rightarrow> Net" where
  "CloseLowestLayer s n =
     (if is_ssl (heap n s) then SslSession_CloseLowestLayer s n else PlainSession_CloseLowestLayer s n)"

text \<open>Exceptions of the clean-up are caught and logged.\<close>

definition RemoveFromRegistry ::
  "('r, UpdateCaptures) RoomRepository \<Rightarrow> 'j json_api \<Rightarrow> address \<Rightarrow> 'r \<Rightarrow> Net \<Rightarrow> 'r \<times> Net"
where
  "RemoveFromRegistry ops J s r n =
     (if \<not> registered (heap n s) then (r, n)
      else
        (let pid = participant_id (heap n s);
             n1 = modify s (\<lambda>x. x\<lparr>registered := False\<rparr>) n;
             n2 = n1\<lparr>registry := SessionRegistry_Remove pid (registry n1)\<rparr>
         in case HandleParticipantDisconnected ops pid r of
              (Inl ex, r') \<Rightarrow> (r', n2)
            | (Inr evs, r') \<Rightarrow> (r', snd (DeliverEvents J evs n2))))"

definition Fail ::
  "('r, UpdateCaptures) RoomRepository \<Rightarrow> 'j json_api \<Rightarrow> address \<Rightarrow> 'r \<Rightarrow> Net \<Rightarrow> 'r \<times> Net"
where
  "Fail ops J s r n =
     (let n1 = modify s (\<lambda>x. x\<lparr>closing := True\<rparr>) n;
          (r', n2) = RemoveFromRegistry ops J s r n1
      in (r', CloseLowestLayer s n2))"

text \<open>The task that \<^verbatim>\<open>Close\<close> posts.\<close>

definition run_close ::
  "('r, UpdateCaptures) RoomRepository \<Rightarrow> 'j json_api \<Rightarrow> address \<Rightarrow> 'r \<Rightarrow> Net \<Rightarrow> 'r \<times> Net"
where
  "run_close ops J s r n =
     (if closing (heap n s) then (r, n)
      else
        (let n1 = modify s (\<lambda>x. x\<lparr>closing := True\<rparr>) n;
             (r', n2) = RemoveFromRegistry ops J s r n1
         in if is_open (heap n2 s) then (r', start_async s AsyncClose n2)
            else (r', CloseLowestLayer s n2)))"

definition AcceptWebSocket :: "address \<Rightarrow> Net \<Rightarrow> Net" where
  "AcceptWebSocket s = start_async s AsyncAccept"

definition ReadNext :: "address \<Rightarrow> Net \<Rightarrow> Net" where
  "ReadNext s = start_async s AsyncRead"

text \<open>\<^verbatim>\<open>Start\<close> of the two session classes.\<close>

definition PlainSession_Start :: "address \<Rightarrow> Net \<Rightarrow> Net" where
  "PlainSession_Start s n = AcceptWebSocket s n"

definition SslSession_Start :: "address \<Rightarrow> Net \<Rightarrow> Net" where
  "SslSession_Start s n = start_async s AsyncHandshake n"

definition OnTlsHandshake ::
  "('r, UpdateCaptures) RoomRepository \<Rightarrow> 'j json_api \<Rightarrow> address \<Rightarrow> bool \<Rightarrow> 'r \<Rightarrow> Net \<Rightarrow> 'r \<times> Net"
where
  "OnTlsHandshake ops J s error r n =
     (if error then Fail ops J s r n else (r, AcceptWebSocket s n))"

definition OnWebSocketAccept ::
  "('r, UpdateCaptures) RoomRepository \<Rightarrow> 'j json_api \<Rightarrow> address \<Rightarrow> bool \<Rightarrow> 'r \<Rightarrow> Net \<Rightarrow> 'r \<times> Net"
where
  "OnWebSocketAccept ops J s error r n =
     (if error then Fail ops J s r n
      else
        (let n1 = n\<lparr>registry := SessionRegistry_Add (GetParticipantId n) (Some s) (registry n)\<rparr>;
             n2 = modify s (\<lambda>x. x\<lparr>registered := True\<rparr>) n1
         in (r, ReadNext s n2)))"

text \<open>The outcome of a read: the peer closed, another error, or a message with its kind.\<close>

datatype ReadResult = ReadClosed | ReadError | ReadMessage (got_text: bool) (message_text: string)

definition OnRead ::
  "('r, UpdateCaptures) RoomRepository \<Rightarrow> 'j json_api \<Rightarrow> (nat \<Rightarrow> nat) \<Rightarrow> address \<Rightarrow> ReadResult
     \<Rightarrow> 'r \<Rightarrow> Net \<Rightarrow> exn option \<times> 'r \<times> Net"
where
  "OnRead ops J draws s result r n =
     (case result of
        ReadClosed \<Rightarrow> (let (r', n') = RemoveFromRegistry ops J s r n in (None, r', n'))
      | ReadError \<Rightarrow> (let (r', n') = Fail ops J s r n in (None, r', n'))
      | ReadMessage is_text message \<Rightarrow>
          if \<not> is_text then
            (case InvalidMessageError J of
               Inl ex \<Rightarrow> (Some ex, r, n)
             | Inr text \<Rightarrow> (None, r, ReadNext s (Send s text n)))
          else
            (case HandleMessage ops J draws s message r n of
               (Some ex, r', n') \<Rightarrow> (Some ex, r', n')
             | (None, r', n') \<Rightarrow> (None, r', ReadNext s n')))"

text \<open>The completion handler of \<^verbatim>\<open>async_write\<close>.\<close>

definition on_write ::
  "('r, UpdateCaptures) RoomRepository \<Rightarrow> 'j json_api \<Rightarrow> address \<Rightarrow> bool \<Rightarrow> 'r \<Rightarrow> Net \<Rightarrow> 'r \<times> Net"
where
  "on_write ops J s error r n =
     (if error then Fail ops J s r n
      else
        (let n1 = modify s (\<lambda>x. x\<lparr>write_queue := tl (write_queue x)\<rparr>) n
         in (r, if write_queue (heap n1 s) \<noteq> [] then DoWrite s n1 else n1)))"

section \<open>Frame lemmas\<close>

lemma modify_sel [simp]:
  "heap (modify s f n) = (heap n)(s := f (heap n s))" "registry (modify s f n) = registry n"
  "posted (modify s f n) = posted n" "next_address (modify s f n) = next_address n"
  by (simp_all add: modify_def)

lemma start_async_sel [simp]:
  "heap (start_async s op n) = (heap n)(s := (heap n s)\<lparr>pending := pending (heap n s) @ [op]\<rparr>)"
  "registry (start_async s op n) = registry n" "posted (start_async s op n) = posted n"
  "next_address (start_async s op n) = next_address n"
  by (simp_all add: start_async_def)

lemma Send_sel [simp]:
  "heap (Send s t n) = heap n" "registry (Send s t n) = registry n" "next_address (Send s t n) = next_address n"
  "posted (Send s t n) = posted n @ [SendTask s t]"
  by (simp_all add: Send_def)

lemma Close_sel [simp]:
  "heap (Close s n) = heap n" "registry (Close s n) = registry n" "next_address (Close s n) = next_address n"
  "posted (Close s n) = posted n @ [CloseTask s]"
  by (simp_all add: Close_def)

text \<open>Operations that do nothing but post messages.\<close>

definition post_all :: "(address \<times> string) list \<Rightarrow> Net \<Rightarrow> Net" where
  "post_all ms n = n\<lparr>posted := posted n @ map (\<lambda>m. SendTask (fst m) (snd m)) ms\<rparr>"

definition only_posts :: "Net \<Rightarrow> Net \<Rightarrow> bool" where
  "only_posts n n' \<longleftrightarrow> (\<exists>ms. n' = post_all ms n)"

lemma post_all_simps [simp]:
  "post_all [] n = n" "post_all ms' (post_all ms n) = post_all (ms @ ms') n"
  "heap (post_all ms n) = heap n" "registry (post_all ms n) = registry n"
  "next_address (post_all ms n) = next_address n"
  "posted (post_all ms n) = posted n @ map (\<lambda>m. SendTask (fst m) (snd m)) ms"
  by (simp_all add: post_all_def)

lemma Send_post: "Send s t n = post_all [(s, t)] n"
  by (simp add: Send_def post_all_def)

lemma only_posts_refl [intro]: "only_posts n n"
  unfolding only_posts_def by (rule exI [of _ "[]"]) simp

lemma only_posts_trans: "only_posts n n' \<Longrightarrow> only_posts n' n'' \<Longrightarrow> only_posts n n''"
  by (auto simp: only_posts_def)

lemma only_posts_Send [intro]: "only_posts n (Send s t n)"
  unfolding only_posts_def Send_post by blast

lemma only_posts_heap: "only_posts n n' \<Longrightarrow> heap n' = heap n \<and> registry n' = registry n \<and> next_address n' = next_address n"
  by (auto simp: only_posts_def)

text \<open>The messages that an event causes, in order.\<close>

definition event_messages :: "SessionRegistry \<Rightarrow> ControlDispatcherEvent \<Rightarrow> string \<Rightarrow> (address \<times> string) list" where
  "event_messages reg event encoded =
     concat (map (\<lambda>p. if event_skips event p then []
         else case map_of reg (GetId p) of None \<Rightarrow> [] | Some t \<Rightarrow> [(t, encoded)]) (event_receivers event))"

fun events_messages :: "'j json_api \<Rightarrow> SessionRegistry \<Rightarrow> ControlDispatcherEvent list \<Rightarrow> exn option \<times> (address \<times> string) list"
where
  "events_messages J reg [] = (None, [])"
| "events_messages J reg (event # evs) =
     (case EncodeEvent J event of
        Inl ex \<Rightarrow> (Some ex, [])
      | Inr encoded \<Rightarrow>
          (fst (events_messages J reg evs), event_messages reg event encoded @ snd (events_messages J reg evs)))"

lemma event_messages_text: "m \<in> set (event_messages reg event encoded) \<Longrightarrow> snd m = encoded"
  by (auto simp: event_messages_def split: if_splits option.splits)

lemma events_messages_encoded:
  "m \<in> set (snd (events_messages J reg evs)) \<Longrightarrow> \<exists>event \<in> set evs. EncodeEvent J event = Inr (snd m)"
  by (induction evs) (auto dest: event_messages_text split: sum.splits)

lemma events_messages_all:
  assumes "\<And>event. event \<in> set evs \<Longrightarrow> EncodeEvent J event = Inr (text_of event)"
  shows "snd (events_messages J reg evs) = concat (map (\<lambda>event. event_messages reg event (text_of event)) evs)"
  using assms by (induction evs) simp_all

lemma foldl_deliver_to:
  "foldl (\<lambda>n' p. deliver_to skip encoded p n') n ps =
     post_all (concat (map (\<lambda>p. if skip p then []
         else case map_of (registry n) (GetId p) of None \<Rightarrow> [] | Some t \<Rightarrow> [(t, encoded)]) ps)) n"
  by (induction ps arbitrary: n) (auto simp: deliver_to_def Send_post cong: if_cong split: option.splits)

lemma DeliverEvents_messages:
  "DeliverEvents J evs n =
     (fst (events_messages J (registry n) evs), post_all (snd (events_messages J (registry n) evs)) n)"
  by (induction evs arbitrary: n)
    (auto simp: foldl_deliver_to event_messages_def split: sum.splits)

lemma only_posts_DeliverEvents: "only_posts n (snd (DeliverEvents J evs n))"
  by (auto simp: DeliverEvents_messages only_posts_def)

lemma only_posts_answer: "only_posts n (snd (answer J s result n))"
  using only_posts_trans [OF only_posts_Send only_posts_DeliverEvents]
  by (auto simp: answer_def split: sum.splits)

lemma only_posts_on_result: "only_posts n (snd (on_result J s result n))"
  using only_posts_trans [OF only_posts_Send only_posts_answer] only_posts_answer
  by (auto simp: on_result_def split: ControlDispatcherResponse.splits SuccessResponsePayload.splits
      option.splits sum.splits)

lemma only_posts_send_protocol_error: "only_posts n (snd (send_protocol_error J s mt code rid n))"
  by (auto simp: send_protocol_error_def split: sum.splits)

text \<open>The callback's state after \<^verbatim>\<open>Dispatch\<close> is that of one or two calls.\<close>

lemma Dispatch_net:
  assumes call: "\<And>result n. only_posts n (snd (call result n))"
  shows "only_posts n (snd (snd (Dispatch ops draws request (Some call) r n)))"
proof (cases "dispatch_switch ops draws request r")
  case (Pair res r')
  let ?internal = "error_result (meta request) InternalErrorResponse"
  show ?thesis
  proof (cases res)
    case (Inl ex)
    with Pair show ?thesis using call [of n ?internal] by (simp add: Dispatch_def case_prod_beta Let_def)
  next
    case (Inr result)
    obtain out n' where c: "call result n = (out, n')" by fastforce
    have "only_posts n n'" using call [of n result] c by simp
    moreover have "only_posts n' (snd (call ?internal n'))" by (rule call)
    ultimately have "only_posts n (snd (call ?internal n'))" by (rule only_posts_trans)
    with \<open>only_posts n n'\<close> show ?thesis
      using Pair Inr c by (cases out) (simp_all add: Dispatch_def case_prod_beta Let_def)
  qed
qed

lemma HandleMessage_net: "only_posts n (snd (snd (HandleMessage ops J draws s message r n)))"
  using only_posts_send_protocol_error Dispatch_net [OF only_posts_on_result]
  by (auto simp: HandleMessage_def case_prod_beta Let_def split: sum.splits decode_exn.splits exn.splits)

text \<open>Removal from the registry.\<close>

definition unregister :: "address \<Rightarrow> Net \<Rightarrow> Net" where
  "unregister s n =
     (modify s (\<lambda>x. x\<lparr>registered := False\<rparr>) n)
       \<lparr>registry := SessionRegistry_Remove (participant_id (heap n s)) (registry n)\<rparr>"

lemma unregister_sel [simp]:
  "heap (unregister s n) = (heap n)(s := (heap n s)\<lparr>registered := False\<rparr>)"
  "registry (unregister s n) = SessionRegistry_Remove (participant_id (heap n s)) (registry n)"
  "posted (unregister s n) = posted n" "next_address (unregister s n) = next_address n"
  by (simp_all add: unregister_def)

lemma RemoveFromRegistry_net:
  "if registered (heap n s) then only_posts (unregister s n) (snd (RemoveFromRegistry ops J s r n))
   else RemoveFromRegistry ops J s r n = (r, n)"
  using only_posts_DeliverEvents
  by (auto simp: RemoveFromRegistry_def Let_def unregister_def split: prod.splits sum.splits)

text \<open>The effect of the handlers on the session objects, which does not depend on the repository.\<close>

definition only_sends :: "Task list \<Rightarrow> Task list \<Rightarrow> bool" where
  "only_sends ts ts' \<longleftrightarrow> (\<exists>ms. ts' = ts @ map (\<lambda>m. SendTask (fst m) (snd m)) ms)"

lemma only_sends_refl [simp]: "only_sends ts ts"
  unfolding only_sends_def by (rule exI [of _ "[]"]) simp

lemma only_posts_sends: "only_posts n n' \<Longrightarrow> only_sends (posted n) (posted n')"
  by (auto simp: only_posts_def only_sends_def)

lemma registered_False_idem: "\<not> registered x \<Longrightarrow> x\<lparr>registered := False\<rparr> = x"
  by (cases x) simp

lemma RemoveFromRegistry_effect [simp]:
  "heap (snd (RemoveFromRegistry ops J s r n)) = (heap n)(s := (heap n s)\<lparr>registered := False\<rparr>)"
  "next_address (snd (RemoveFromRegistry ops J s r n)) = next_address n"
  "registry (snd (RemoveFromRegistry ops J s r n)) =
     (if registered (heap n s) then SessionRegistry_Remove (participant_id (heap n s)) (registry n)
      else registry n)"
  "only_sends (posted n) (posted (snd (RemoveFromRegistry ops J s r n)))"
  using RemoveFromRegistry_net [of n s ops J r] only_posts_heap only_posts_sends
  by (cases "registered (heap n s)"; fastforce simp: registered_False_idem)+

lemma CloseLowestLayer_sel [simp]:
  "heap (CloseLowestLayer s n) = (heap n)(s := (heap n s)\<lparr>socket_open := False\<rparr>)"
  "registry (CloseLowestLayer s n) = registry n" "posted (CloseLowestLayer s n) = posted n"
  "next_address (CloseLowestLayer s n) = next_address n"
  by (simp_all add: CloseLowestLayer_def PlainSession_CloseLowestLayer_def SslSession_CloseLowestLayer_def)

definition failed :: "Session \<Rightarrow> Session" where
  "failed x = x\<lparr>closing := True, registered := False, socket_open := False\<rparr>"

lemma Fail_effect [simp]:
  "heap (snd (Fail ops J s r n)) = (heap n)(s := failed (heap n s))"
  "next_address (snd (Fail ops J s r n)) = next_address n"
  "registry (snd (Fail ops J s r n)) =
     (if registered (heap n s) then SessionRegistry_Remove (participant_id (heap n s)) (registry n)
      else registry n)"
  "only_sends (posted n) (posted (snd (Fail ops J s r n)))"
  using RemoveFromRegistry_effect(4) [of "modify s (\<lambda>x. x\<lparr>closing := True\<rparr>) n" ops J s r]
  by (simp_all add: Fail_def Let_def case_prod_beta failed_def)

lemma HandleMessage_effect [simp]:
  "heap (snd (snd (HandleMessage ops J draws s message r n))) = heap n"
  "registry (snd (snd (HandleMessage ops J draws s message r n))) = registry n"
  "next_address (snd (snd (HandleMessage ops J draws s message r n))) = next_address n"
  "only_sends (posted n) (posted (snd (snd (HandleMessage ops J draws s message r n))))"
  by (simp_all add: only_posts_heap [OF HandleMessage_net] only_posts_sends [OF HandleMessage_net])

lemma HandleMessage_result:
  assumes "HandleMessage ops J draws s message r n = (out, r', n')"
  shows "heap n' = heap n" "registry n' = registry n" "next_address n' = next_address n"
    "only_sends (posted n) (posted n')"
  using HandleMessage_effect [where ops = ops and J = J and draws = draws and s = s and message = message
      and r = r and n = n] unfolding assms by simp_all

lemma OnRead_message:
  assumes "OnRead ops J draws s (ReadMessage is_text t) r n = (None, r', n')"
  obtains n1 where "n' = ReadNext s n1" "heap n1 = heap n" "registry n1 = registry n"
    "next_address n1 = next_address n" "only_sends (posted n) (posted n1)"
proof (cases is_text)
  case True
  then obtain n1 where hm: "HandleMessage ops J draws s t r n = (None, r', n1)" and "n' = ReadNext s n1"
    using assms by (auto simp: OnRead_def split: prod.splits option.splits)
  then show ?thesis using that HandleMessage_result [OF hm] by simp
next
  case False
  then obtain m where "n' = ReadNext s (Send s m n)"
    using assms by (auto simp: OnRead_def split: sum.splits)
  then show ?thesis
    using only_posts_sends [OF only_posts_Send, of n s m] by (intro that [of "Send s m n"]) simp_all
qed

lemma OnRead_cases:
  assumes "OnRead ops J draws s result r n = (None, r', n')"
  obtains (closed) "result = ReadClosed" "RemoveFromRegistry ops J s r n = (r', n')"
  | (error) "result = ReadError" "Fail ops J s r n = (r', n')"
  | (message) is_text t n1 where "result = ReadMessage is_text t" "n' = ReadNext s n1" "heap n1 = heap n"
      "registry n1 = registry n" "next_address n1 = next_address n" "only_sends (posted n) (posted n1)"
proof (cases result)
  case ReadClosed
  with assms show ?thesis by (intro closed) (auto simp: OnRead_def split: prod.splits)
next
  case ReadError
  with assms show ?thesis by (intro error) (auto simp: OnRead_def split: prod.splits)
next
  case (ReadMessage is_text t)
  then show ?thesis using OnRead_message [of ops J draws s is_text t r n r' n'] assms message by metis
qed

lemma DoWrite_effect [simp]:
  "heap (DoWrite s n) = (heap n)(s :=
     (if write_queue (heap n s) = [] \<or> closing (heap n s) then heap n s
      else (heap n s)\<lparr>pending := pending (heap n s) @ [AsyncWrite (hd (write_queue (heap n s)))]\<rparr>))"
  "registry (DoWrite s n) = registry n" "posted (DoWrite s n) = posted n"
  "next_address (DoWrite s n) = next_address n"
  by (auto simp: DoWrite_def)

section \<open>One operation of each kind at a time\<close>

text \<open>
  Beast requires that a session has at most one write and at most one read in progress. The
  texts being written, and the operations that start or continue the reading side:
\<close>

fun writes :: "AsyncOp list \<Rightarrow> string list" where
  "writes [] = []"
| "writes (AsyncWrite t # ops) = t # writes ops"
| "writes (_ # ops) = writes ops"

definition is_control :: "AsyncOp \<Rightarrow> bool" where
  "is_control op \<longleftrightarrow> op \<in> {AsyncHandshake, AsyncAccept, AsyncRead}"

definition session_ok :: "Session \<Rightarrow> bool" where
  "session_ok x \<longleftrightarrow>
     (writes (pending x) = [] \<or> write_queue x \<noteq> [] \<and> writes (pending x) = [hd (write_queue x)])
     \<and> (\<not> closing x \<longrightarrow> write_queue x \<noteq> [] \<longrightarrow> writes (pending x) \<noteq> [])
     \<and> length (filter is_control (pending x)) \<le> 1
     \<and> count_list (pending x) AsyncClose \<le> (if closing x then 1 else 0)"

definition idle :: "Session \<Rightarrow> bool" where
  "idle x \<longleftrightarrow> session_ok x \<and> filter is_control (pending x) = []"

lemma writes_append [simp]: "writes (xs @ ys) = writes xs @ writes ys"
  by (induction xs rule: writes.induct) simp_all

lemma writes_remove1 [simp]: "\<forall>t. op \<noteq> AsyncWrite t \<Longrightarrow> writes (remove1 op ops) = writes ops"
  by (induction ops rule: writes.induct) auto

lemma count_append [simp]: "count_list (xs @ ys) a = count_list xs a + count_list ys a"
  by (induction xs) auto

lemma count_remove1_le: "count_list (remove1 op ops) a \<le> count_list ops a"
  by (induction ops) auto

lemma filter_remove1: "filter P (remove1 a xs) = (if P a then remove1 a (filter P xs) else filter P xs)"
  by (induction xs) auto

lemma control_op [simp]:
  "is_control AsyncHandshake" "is_control AsyncAccept" "is_control AsyncRead"
  "\<not> is_control (AsyncWrite t)" "\<not> is_control AsyncClose"
  by (simp_all add: is_control_def)

lemma idleD: "idle x \<Longrightarrow> session_ok x"
  by (simp add: idle_def)

lemma control_finished:
  assumes "session_ok x" and "op \<in> set (pending x)" and "is_control op"
  shows "idle (x\<lparr>pending := remove1 op (pending x)\<rparr>)"
proof -
  have "op \<in> set (filter is_control (pending x))" using assms(2,3) by simp
  moreover have "length (filter is_control (pending x)) \<le> 1" using assms(1) by (simp add: session_ok_def)
  ultimately have "filter is_control (pending x) = [op]"
    by (cases "filter is_control (pending x)") auto
  moreover have "\<forall>t. op \<noteq> AsyncWrite t" using assms(3) by (auto simp: is_control_def)
  moreover have "count_list (remove1 op (pending x)) AsyncClose \<le> (if closing x then 1 else 0)"
    using assms(1) count_remove1_le [of op "pending x" AsyncClose]
    by (auto simp: session_ok_def split: if_splits)
  ultimately show ?thesis
    using assms by (simp add: idle_def session_ok_def filter_remove1)
qed

lemma control_started:
  "idle x \<Longrightarrow> is_control op \<Longrightarrow> session_ok (x\<lparr>pending := pending x @ [op]\<rparr>)"
  by (cases op) (simp_all add: idle_def session_ok_def)

lemma session_ok_flags:
  "session_ok x \<Longrightarrow> session_ok (x\<lparr>registered := b\<rparr>)" "session_ok x \<Longrightarrow> session_ok (x\<lparr>is_open := b\<rparr>)"
  "session_ok x \<Longrightarrow> session_ok (x\<lparr>socket_open := b\<rparr>)" "session_ok x \<Longrightarrow> session_ok (x\<lparr>wire := ts\<rparr>)"
  "session_ok x \<Longrightarrow> session_ok (failed x)" "idle x \<Longrightarrow> idle (x\<lparr>registered := b\<rparr>)"
  by (auto simp: session_ok_def failed_def idle_def split: if_splits)

lemma session_ok_close:
  "session_ok x \<Longrightarrow> \<not> closing x \<Longrightarrow>
     session_ok (x\<lparr>closing := True, registered := False, pending := pending x @ [AsyncClose]\<rparr>)"
  by (auto simp: session_ok_def)

lemma session_ok_send:
  assumes "session_ok x"
  shows "session_ok
    (let y = x\<lparr>write_queue := write_queue x @ [t]\<rparr>
     in if write_queue x = [] \<and> \<not> closing x then y\<lparr>pending := pending y @ [AsyncWrite t]\<rparr> else y)"
  using assms by (auto simp: session_ok_def Let_def)

lemma writes_remove1_write: "writes ops = [t] \<Longrightarrow> writes (remove1 (AsyncWrite t) ops) = []"
  by (induction ops rule: writes.induct) auto

lemma session_ok_written:
  assumes "session_ok x" and "writes (pending x) = [t]"
  shows "session_ok
    (let y = x\<lparr>pending := remove1 (AsyncWrite t) (pending x), write_queue := tl (write_queue x)\<rparr>
     in if write_queue y \<noteq> [] \<and> \<not> closing x then y\<lparr>pending := pending y @ [AsyncWrite (hd (write_queue y))]\<rparr> else y)"
proof -
  have "count_list (remove1 (AsyncWrite t) (pending x)) AsyncClose \<le> (if closing x then 1 else 0)"
    using assms(1) count_remove1_le [of "AsyncWrite t" "pending x" AsyncClose]
    by (auto simp: session_ok_def split: if_splits)
  with assms show ?thesis
    by (auto simp: session_ok_def Let_def filter_remove1 writes_remove1_write)
qed

lemma session_ok_write_failed:
  assumes "session_ok x" and "writes (pending x) = [t]"
  shows "session_ok (failed (x\<lparr>pending := remove1 (AsyncWrite t) (pending x)\<rparr>))"
proof -
  have "count_list (remove1 (AsyncWrite t) (pending x)) AsyncClose \<le> 1"
    using assms(1) count_remove1_le [of "AsyncWrite t" "pending x" AsyncClose]
    by (auto simp: session_ok_def split: if_splits)
  with assms show ?thesis
    by (auto simp: session_ok_def failed_def filter_remove1 writes_remove1_write)
qed

section \<open>Identifiers\<close>

lemma length_hex_64: "length (show_base 16 (unat (draw :: 64 word))) \<le> 16"
proof (rule length_show_base)
  have "unat draw < 2 ^ 64" using unsigned_less [of draw] by simp
  then show "unat draw < 16 ^ 16" by simp
qed simp_all

lemma GenerateParticipantId_shape:
  "\<exists>hex. GenerateParticipantId draw = ''p_'' @ hex \<and> length hex = 16 \<and> set hex \<subseteq> set ''0123456789abcdef''"
proof (intro exI conjI)
  let ?hex = "setw_fill 16 CHR ''0'' (show_base 16 (unat draw))"
  show "GenerateParticipantId draw = ''p_'' @ ?hex" by (simp add: GenerateParticipantId_def)
  show "length ?hex = 16"
    by (rule length_setw_fill [OF length_hex_64])
  show "set ?hex \<subseteq> set ''0123456789abcdef''"
  proof (rule order_trans [OF set_setw_fill])
    have "set (show_base 16 (unat draw)) \<subseteq> set ''0123456789abcdef''" using set_show_base [of 16 "unat draw"] by simp
    then show "insert CHR ''0'' (set (show_base 16 (unat draw))) \<subseteq> set ''0123456789abcdef''" by simp
  qed
qed

lemma GenerateParticipantId_inject: "GenerateParticipantId draw = GenerateParticipantId draw' \<longleftrightarrow> draw = draw'"
proof
  assume "GenerateParticipantId draw = GenerateParticipantId draw'"
  then have "read_base 16 (setw_fill 16 CHR ''0'' (show_base 16 (unat draw))) =
      read_base 16 (setw_fill 16 CHR ''0'' (show_base 16 (unat draw')))"
    by (simp add: GenerateParticipantId_def)
  then show "draw = draw'" by (simp only: read_setw_fill [of 16, simplified] word_unat_eq_iff)
qed simp

text \<open>
  C40. Generated identifiers: for every number that can be drawn (0 to 999999), a room code has
  exactly six decimal digits; a participant id is \<^verbatim>\<open>p_\<close> and sixteen hexadecimal digits, for
  every 64-bit number. Different numbers give different codes and different ids, so there are a
  million codes and two to the power of 64 ids.
\<close>

theorem generated_identifiers:
  assumes "n \<le> 999999"
  shows "length (GenerateRoomCode n) = 6 \<and> set (GenerateRoomCode n) \<subseteq> set ''0123456789''
    \<and> (\<forall>k. GenerateRoomCode k = GenerateRoomCode n \<longleftrightarrow> k = n)
    \<and> (\<exists>hex. GenerateParticipantId draw = ''p_'' @ hex \<and> length hex = 16 \<and> set hex \<subseteq> set ''0123456789abcdef'')
    \<and> (\<forall>draw'. GenerateParticipantId draw' = GenerateParticipantId draw \<longleftrightarrow> draw' = draw)"
  using GenerateRoomCode_digits [OF assms] GenerateParticipantId_shape [of draw]
  by (simp only: GenerateParticipantId_inject simp_thms)

theorem generated_identifiers_witness:
  "GenerateRoomCode 42 = ''000042'' \<and> length (GenerateRoomCode 42) = 6
     \<and> GenerateParticipantId 255 = ''p_00000000000000ff''"
proof -
  have "GenerateRoomCode 42 = ''000042''" "GenerateParticipantId 255 = ''p_00000000000000ff''" by code_simp+
  moreover have "length (GenerateRoomCode 42) = 6" using generated_identifiers [of 42] by simp
  ultimately show ?thesis by simp
qed

end
