(* ===== verification/Runtime.thy ===== *)
theory Runtime
  imports Session
begin

text \<open>
  The running server: the listener (src/net/Listener.cpp), and the server (src/net/Server.cpp) as
  a state machine. \<^verbatim>\<open>io_context::run\<close> executes, one after another on one thread, posted tasks and
  completion handlers of asynchronous operations; each of them is an event here. Which events
  occur, in which order and with which outcome, is up to the clients, the network and the
  libraries: the reachable states are those of all such sequences.
\<close>

section \<open>Listener\<close>

record Listener =
  acceptor_open :: bool
  tls_enabled :: bool
  accepts :: nat

text \<open>
  The four calls on the acceptor; \<open>sys\<close> says which of them report an error. Of a sequence of
  such calls, the first error is the one that is thrown.
\<close>

datatype AcceptorCall = AcceptorOpen | AcceptorReuseAddress | AcceptorBind | AcceptorListen

fun first_error :: "('c \<Rightarrow> string option) \<Rightarrow> 'c list \<Rightarrow> string option" where
  "first_error sys [] = None"
| "first_error sys (c # cs) = (case sys c of None \<Rightarrow> first_error sys cs | Some e \<Rightarrow> Some e)"

definition Listener_new :: "(AcceptorCall \<Rightarrow> string option) \<Rightarrow> bool \<Rightarrow> exn + Listener" where
  "Listener_new sys tls =
     (case first_error sys [AcceptorOpen, AcceptorReuseAddress, AcceptorBind, AcceptorListen] of
        Some e \<Rightarrow> Inl (runtime_error e)
      | None \<Rightarrow> Inr \<lparr>acceptor_open = True, tls_enabled = tls, accepts = 0\<rparr>)"

definition AcceptNext :: "Listener \<Rightarrow> Listener" where
  "AcceptNext l = l\<lparr>accepts := Suc (accepts l)\<rparr>"

definition Listener_Start :: "Listener \<Rightarrow> Listener" where
  "Listener_Start l = AcceptNext l"

definition Listener_Stop :: "Listener \<Rightarrow> Listener" where
  "Listener_Stop l = l\<lparr>acceptor_open := False\<rparr>"

text \<open>\<^verbatim>\<open>std::make_shared\<close> of a session and its \<^verbatim>\<open>Start\<close>.\<close>

definition open_session :: "bool \<Rightarrow> 64 word \<Rightarrow> Net \<Rightarrow> Net" where
  "open_session ssl draw n =
     (let s = next_address n;
          n1 = n\<lparr>heap := (heap n)(s := Session_new ssl draw), next_address := Suc s\<rparr>
      in if ssl then SslSession_Start s n1 else PlainSession_Start s n1)"

definition OnAccept :: "bool \<Rightarrow> 64 word \<Rightarrow> Listener \<Rightarrow> Net \<Rightarrow> Listener \<times> Net" where
  "OnAccept error draw l n =
     (if \<not> acceptor_open l then (l, n)
      else if error then (AcceptNext l, n)
      else (AcceptNext l, open_session (tls_enabled l) draw n))"

section \<open>Events\<close>

record 'r World =
  listener :: Listener
  repository :: 'r
  net :: Net
  stopped :: bool

text \<open>
  An event is the completion of a pending operation (the flag says whether with an error), the
  turn of the first posted task, a call of the public \<^verbatim>\<open>Close\<close> or \<^verbatim>\<open>Stop\<close>, or a change of what
  \<^verbatim>\<open>websocket_.is_open()\<close> returns. The arguments \<open>draws\<close> and \<open>draw\<close> are the random
  numbers drawn on the way.
\<close>

datatype Event =
    RunTask
  | HandshakeDone address bool
  | AcceptDone address bool
  | ReadDone address ReadResult "nat \<Rightarrow> nat"
  | WriteDone address bool
  | CloseDone address
  | CloseCalled address
  | OpenChanged address bool
  | TcpAccepted bool "64 word"
  | StopCalled

definition finish_async :: "address \<Rightarrow> AsyncOp \<Rightarrow> Net \<Rightarrow> Net" where
  "finish_async s op = modify s (\<lambda>x. x\<lparr>pending := remove1 op (pending x)\<rparr>)"

definition run_task ::
  "('r, UpdateCaptures) RoomRepository \<Rightarrow> 'j json_api \<Rightarrow> Task \<Rightarrow> 'r \<Rightarrow> Net \<Rightarrow> 'r \<times> Net"
where
  "run_task ops J task r n =
     (case task of
        SendTask s message \<Rightarrow> (r, run_send s message n)
      | CloseTask s \<Rightarrow> run_close ops J s r n)"

text \<open>The first write that a session has in flight.\<close>

fun first_write :: "AsyncOp list \<Rightarrow> string option" where
  "first_write [] = None"
| "first_write (AsyncWrite t # ops) = Some t"
| "first_write (_ # ops) = first_write ops"

definition complete_write :: "address \<Rightarrow> string \<Rightarrow> bool \<Rightarrow> Net \<Rightarrow> Net" where
  "complete_write s t error n =
     (let n' = finish_async s (AsyncWrite t) n
      in if error then n' else modify s (\<lambda>x. x\<lparr>wire := wire x @ [t]\<rparr>) n')"

definition on_net ::
  "('r \<Rightarrow> Net \<Rightarrow> 'r \<times> Net) \<Rightarrow> 'r World \<Rightarrow> exn option \<times> 'r World"
where
  "on_net f w = (let (r, n) = f (repository w) (net w) in (None, w\<lparr>repository := r, net := n\<rparr>))"

text \<open>\<^verbatim>\<open>Server::Stop\<close>; after \<^verbatim>\<open>io_context_.stop()\<close> no further handler runs.\<close>

definition Server_Stop :: "'r World \<Rightarrow> 'r World" where
  "Server_Stop w = w\<lparr>listener := Listener_Stop (listener w), stopped := True\<rparr>"

text \<open>
  What an event does: \<open>None\<close> when it cannot occur in the state (no such operation is pending, or
  the server has been stopped), otherwise the exception that leaves the handler, if any, and the
  new state.
\<close>

definition handle_event ::
  "('r, UpdateCaptures) RoomRepository \<Rightarrow> 'j json_api \<Rightarrow> Event \<Rightarrow> 'r World
     \<Rightarrow> (exn option \<times> 'r World) option"
where
  "handle_event ops J event w =
     (let n = net w; r = repository w
      in if stopped w then None
         else case event of
           RunTask \<Rightarrow>
             (case posted n of
                [] \<Rightarrow> None
              | task # tasks \<Rightarrow>
                  Some (on_net (\<lambda>r n. run_task ops J task r (n\<lparr>posted := tasks\<rparr>)) w))
         | HandshakeDone s error \<Rightarrow>
             (if AsyncHandshake \<in> set (pending (heap n s))
              then Some (on_net (\<lambda>r n. OnTlsHandshake ops J s error r (finish_async s AsyncHandshake n)) w)
              else None)
         | AcceptDone s error \<Rightarrow>
             (if AsyncAccept \<in> set (pending (heap n s))
              then Some (on_net (\<lambda>r n. OnWebSocketAccept ops J s error r (finish_async s AsyncAccept n)) w)
              else None)
         | ReadDone s result draws \<Rightarrow>
             (if AsyncRead \<in> set (pending (heap n s))
              then (let (out, r', n') = OnRead ops J draws s result r (finish_async s AsyncRead n)
                    in Some (out, w\<lparr>repository := r', net := n'\<rparr>))
              else None)
         | WriteDone s error \<Rightarrow>
             (case first_write (pending (heap n s)) of
                None \<Rightarrow> None
              | Some t \<Rightarrow> Some (on_net (\<lambda>r n. on_write ops J s error r (complete_write s t error n)) w))
         | CloseDone s \<Rightarrow>
             (if AsyncClose \<in> set (pending (heap n s))
              then Some (None, w\<lparr>net := finish_async s AsyncClose n\<rparr>) else None)
         | CloseCalled s \<Rightarrow>
             (if s < next_address n then Some (None, w\<lparr>net := Close s n\<rparr>) else None)
         | OpenChanged s b \<Rightarrow> Some (None, w\<lparr>net := modify s (\<lambda>x. x\<lparr>is_open := b\<rparr>) n\<rparr>)
         | TcpAccepted error draw \<Rightarrow>
             (if accepts (listener w) = 0 then None
              else (let (l, n') = OnAccept error draw (listener w\<lparr>accepts := accepts (listener w) - 1\<rparr>) n
                    in Some (None, w\<lparr>listener := l, net := n'\<rparr>)))
         | StopCalled \<Rightarrow> Some (None, Server_Stop w))"

lemma Server_Stop_sel [simp]:
  "repository (Server_Stop w) = repository w" "net (Server_Stop w) = net w" "stopped (Server_Stop w)"
  "listener (Server_Stop w) = Listener_Stop (listener w)"
  by (simp_all add: Server_Stop_def)

lemma read_event:
  assumes "\<not> stopped w" and "AsyncRead \<in> set (pending (heap (net w) s))"
    and "OnRead ops J draws s result (repository w) (finish_async s AsyncRead (net w)) = (out, r', n')"
  shows "handle_event ops J (ReadDone s result draws) w = Some (out, w\<lparr>repository := r', net := n'\<rparr>)"
  using assms by (simp add: handle_event_def)

text \<open>
  The possible events, with what each of them does to the sessions and to the repository. The
  invariance proofs are by cases over this rule.
\<close>

lemma event_cases:
  assumes "handle_event ops J e w = Some (None, w')"
  obtains
    (task) task tasks where "e = RunTask" "posted (net w) = task # tasks"
      "repository w' = fst (run_task ops J task (repository w) ((net w)\<lparr>posted := tasks\<rparr>))"
      "net w' = snd (run_task ops J task (repository w) ((net w)\<lparr>posted := tasks\<rparr>))"
  | (handshake) s error where "e = HandshakeDone s error" "AsyncHandshake \<in> set (pending (heap (net w) s))"
      "repository w' = fst (OnTlsHandshake ops J s error (repository w) (finish_async s AsyncHandshake (net w)))"
      "net w' = snd (OnTlsHandshake ops J s error (repository w) (finish_async s AsyncHandshake (net w)))"
  | (accept) s error where "e = AcceptDone s error" "AsyncAccept \<in> set (pending (heap (net w) s))"
      "repository w' = fst (OnWebSocketAccept ops J s error (repository w) (finish_async s AsyncAccept (net w)))"
      "net w' = snd (OnWebSocketAccept ops J s error (repository w) (finish_async s AsyncAccept (net w)))"
  | (read) s result draws where "e = ReadDone s result draws" "AsyncRead \<in> set (pending (heap (net w) s))"
      "OnRead ops J draws s result (repository w) (finish_async s AsyncRead (net w)) = (None, repository w', net w')"
  | (written) s error t where "e = WriteDone s error" "first_write (pending (heap (net w) s)) = Some t"
      "repository w' = fst (on_write ops J s error (repository w) (complete_write s t error (net w)))"
      "net w' = snd (on_write ops J s error (repository w) (complete_write s t error (net w)))"
  | (closed) s where "e = CloseDone s" "AsyncClose \<in> set (pending (heap (net w) s))"
      "repository w' = repository w" "net w' = finish_async s AsyncClose (net w)"
  | (close) s where "e = CloseCalled s" "s < next_address (net w)"
      "repository w' = repository w" "net w' = Close s (net w)"
  | (opened) s b where "e = OpenChanged s b"
      "repository w' = repository w" "net w' = modify s (\<lambda>x. x\<lparr>is_open := b\<rparr>) (net w)"
  | (tcp) ssl draw where "e = TcpAccepted False draw" "ssl = tls_enabled (listener w)"
      "repository w' = repository w" "net w' = open_session ssl draw (net w)"
  | (same) "repository w' = repository w" "net w' = net w"
proof (cases e)
  case RunTask
  with assms task show ?thesis
    by (auto simp: handle_event_def on_net_def Let_def case_prod_beta split: if_splits list.splits)
next
  case (HandshakeDone s error)
  with assms handshake [of s error] show ?thesis
    by (auto simp: handle_event_def on_net_def Let_def case_prod_beta split: if_splits)
next
  case (AcceptDone s error)
  with assms accept [of s error] show ?thesis
    by (auto simp: handle_event_def on_net_def Let_def case_prod_beta split: if_splits)
next
  case (ReadDone s result draws)
  with assms read [of s result draws] show ?thesis
    by (auto simp: handle_event_def Let_def split: if_splits prod.splits)
next
  case (WriteDone s error)
  with assms written [of s error] show ?thesis
    by (auto simp: handle_event_def on_net_def Let_def case_prod_beta split: if_splits option.splits)
next
  case (TcpAccepted error draw)
  with assms tcp same show ?thesis
    by (auto simp: handle_event_def OnAccept_def Let_def case_prod_beta split: if_splits)
next
  case (CloseDone s)
  with assms closed [of s] show ?thesis by (auto simp: handle_event_def Let_def split: if_splits)
next
  case (CloseCalled s)
  with assms close [of s] show ?thesis by (auto simp: handle_event_def Let_def split: if_splits)
next
  case (OpenChanged s b)
  with assms opened [of s b] show ?thesis by (auto simp: handle_event_def Let_def split: if_splits)
next
  case StopCalled
  with assms same show ?thesis by (auto simp: handle_event_def Let_def split: if_splits)
qed

text \<open>
  The reachable states. \<open>env\<close> says which events the environment can produce in which state;
  an exception that leaves a handler ends \<^verbatim>\<open>io_context::run\<close>, so only events without one lead on.
\<close>

inductive reachable ::
  "('r, UpdateCaptures) RoomRepository \<Rightarrow> 'j json_api \<Rightarrow> (Event \<Rightarrow> 'r World \<Rightarrow> bool) \<Rightarrow> 'r World
     \<Rightarrow> 'r World \<Rightarrow> bool"
  for ops J env w0
where
  start: "reachable ops J env w0 w0"
| event: "reachable ops J env w0 w \<Longrightarrow> env e w \<Longrightarrow> handle_event ops J e w = Some (None, w') \<Longrightarrow>
    reachable ops J env w0 w'"

inductive_cases reachableE: "reachable ops J env w0 w"

section \<open>Session invariant\<close>

definition dormant :: "Session \<Rightarrow> bool" where
  "dormant x \<longleftrightarrow> filter is_control (pending x) = [] \<and> \<not> registered x"

definition net_ok :: "Net \<Rightarrow> bool" where
  "net_ok n \<longleftrightarrow>
     (\<forall>s. session_ok (heap n s))
     \<and> (\<forall>s \<ge> next_address n. dormant (heap n s))
     \<and> umap_wf (registry n)"

definition net_start :: Net where
  "net_start = \<lparr>heap = (\<lambda>_. Session_new False 0), next_address = 0, registry = SessionRegistry_new,
     posted = []\<rparr>"

lemma Session_new_ok: "session_ok (Session_new ssl draw)" "idle (Session_new ssl draw)"
  by (simp_all add: Session_new_def session_ok_def idle_def)

lemma net_start_ok: "net_ok net_start"
  by (simp add: net_ok_def net_start_def Session_new_ok SessionRegistry_new_def Session_new_def session_ok_def
      dormant_def)

lemma finish_async_sel [simp]:
  "heap (finish_async s op n) = (heap n)(s := (heap n s)\<lparr>pending := remove1 op (pending (heap n s))\<rparr>)"
  "registry (finish_async s op n) = registry n" "posted (finish_async s op n) = posted n"
  "next_address (finish_async s op n) = next_address n"
  by (simp_all add: finish_async_def)

lemma first_write_Some: "first_write ops = Some t \<Longrightarrow> \<exists>ts. writes ops = t # ts"
  by (induction ops rule: first_write.induct) auto

lemma first_write_None: "first_write ops = None \<longleftrightarrow> writes ops = []"
  by (induction ops rule: first_write.induct) auto

lemma in_flight:
  assumes "session_ok x" and "first_write (pending x) = Some t"
  shows "writes (pending x) = [t]" and "write_queue x \<noteq> []" and "hd (write_queue x) = t"
  using assms first_write_Some [OF assms(2)] by (auto simp: session_ok_def)

lemma allocated:
  assumes "net_ok n" and "op \<in> set (pending (heap n s))" and "is_control op"
  shows "s < next_address n"
proof (rule ccontr)
  assume "\<not> ?thesis"
  then have "filter is_control (pending (heap n s)) = []"
    using assms(1) by (simp add: net_ok_def dormant_def)
  with assms(2,3) show False by (simp add: filter_empty_conv)
qed

text \<open>
  A state change that touches the record of one session keeps the invariant when the new record
  is fine.
\<close>

lemma net_ok_update:
  assumes "net_ok n" and "session_ok x" and "next_address n \<le> s \<Longrightarrow> dormant x"
    and "heap n' = (heap n)(s := x)" and "next_address n' = next_address n" and "umap_wf (registry n')"
  shows "net_ok n'"
  using assms by (auto simp: net_ok_def)

lemma net_ok_dormant: "net_ok n \<Longrightarrow> next_address n \<le> s \<Longrightarrow> dormant (heap n s)"
  by (simp add: net_ok_def)

lemma umap_wf_registry_step:
  "net_ok n \<Longrightarrow> umap_wf (SessionRegistry_Remove pid (registry n))"
  "net_ok n \<Longrightarrow> umap_wf (SessionRegistry_Add f session (registry n))"
  "net_ok n \<Longrightarrow> umap_wf (registry n)"
  by (simp_all add: net_ok_def reg.invar_add reg.invar_remove)

lemma net_ok_session: "net_ok n \<Longrightarrow> session_ok (heap n s)"
  by (simp add: net_ok_def)

subsection \<open>The handlers keep the invariant\<close>

lemma run_send_effect:
  "heap (run_send s t n) = (heap n)(s := let y = (heap n s)\<lparr>write_queue := write_queue (heap n s) @ [t]\<rparr>
     in if write_queue (heap n s) = [] \<and> \<not> closing (heap n s) then y\<lparr>pending := pending y @ [AsyncWrite t]\<rparr> else y)"
  "registry (run_send s t n) = registry n" "posted (run_send s t n) = posted n"
  "next_address (run_send s t n) = next_address n"
  by (auto simp: run_send_def Let_def)

lemma on_write_effect:
  assumes "\<not> error" and "writes (pending (heap n s)) = [t]"
  shows "heap (snd (on_write ops J s error r (complete_write s t error n))) =
    (heap n)(s := (let y = (heap n s)\<lparr>pending := remove1 (AsyncWrite t) (pending (heap n s)),
         write_queue := tl (write_queue (heap n s))\<rparr>
       in if write_queue y \<noteq> [] \<and> \<not> closing (heap n s)
          then y\<lparr>pending := pending y @ [AsyncWrite (hd (write_queue y))]\<rparr> else y)
      \<lparr>wire := wire (heap n s) @ [t]\<rparr>)"
    and "registry (snd (on_write ops J s error r (complete_write s t error n))) = registry n"
    and "posted (snd (on_write ops J s error r (complete_write s t error n))) = posted n"
    and "next_address (snd (on_write ops J s error r (complete_write s t error n))) = next_address n"
  using assms by (auto simp: on_write_def complete_write_def Let_def)

lemma run_close_effect:
  "heap (snd (run_close ops J s r n)) = (heap n)(s :=
     (if closing (heap n s) then heap n s
      else if is_open (heap n s)
        then (heap n s)\<lparr>closing := True, registered := False, pending := pending (heap n s) @ [AsyncClose]\<rparr>
      else failed (heap n s)))"
  "registry (snd (run_close ops J s r n)) =
     (if \<not> closing (heap n s) \<and> registered (heap n s)
      then SessionRegistry_Remove (participant_id (heap n s)) (registry n) else registry n)"
  "next_address (snd (run_close ops J s r n)) = next_address n"
  "only_sends (posted n) (posted (snd (run_close ops J s r n)))"
  using RemoveFromRegistry_effect(4) [of "modify s (\<lambda>x. x\<lparr>closing := True\<rparr>) n" ops J s r]
  by (auto simp: run_close_def Let_def case_prod_beta failed_def)

lemma run_task_keeps:
  assumes "net_ok n"
  shows "net_ok (snd (run_task ops J task r (n\<lparr>posted := tasks\<rparr>)))"
proof (cases task)
  case (SendTask s t)
  show ?thesis
    by (rule net_ok_update [OF assms session_ok_send [OF net_ok_session [OF assms, of s], of t]])
      (use net_ok_dormant [OF assms, of s] umap_wf_registry_step(3) [OF assms]
        in \<open>auto simp: SendTask run_task_def run_send_effect dormant_def Let_def\<close>)
next
  case (CloseTask s)
  let ?x = "heap n s"
  have "session_ok (if closing ?x then ?x
      else if is_open ?x then ?x\<lparr>closing := True, registered := False, pending := pending ?x @ [AsyncClose]\<rparr>
      else failed ?x)"
    using net_ok_session [OF assms, of s] by (simp add: session_ok_close session_ok_flags)
  then show ?thesis
    by (rule net_ok_update [OF assms, where s = s])
      (use net_ok_dormant [OF assms, of s] umap_wf_registry_step [OF assms]
        in \<open>auto simp: CloseTask run_task_def run_close_effect dormant_def failed_def\<close>)
qed

lemma Fail_keeps:
  assumes "net_ok n" and "session_ok x" and "next_address n \<le> s \<Longrightarrow> dormant x"
    and "heap n1 = (heap n)(s := x)" and "next_address n1 = next_address n" and "registry n1 = registry n"
  shows "net_ok (snd (Fail ops J s r n1))"
  by (rule net_ok_update [OF assms(1) session_ok_flags(5) [OF assms(2)], where s = s])
    (use assms umap_wf_registry_step [OF assms(1)] in \<open>auto simp: dormant_def failed_def\<close>)

text \<open>The handlers of a finished handshake, accept or read.\<close>

lemma control_handler_keeps:
  assumes ok: "net_ok n" and op: "op \<in> set (pending (heap n s))" "is_control op"
  shows "net_ok (snd (Fail ops J s r (finish_async s op n)))"
    and "is_control op' \<Longrightarrow> heap n' = heap (finish_async s op n) \<Longrightarrow> next_address n' = next_address n \<Longrightarrow>
      umap_wf (registry n') \<Longrightarrow> net_ok (start_async s op' n')"
    and "is_control op' \<Longrightarrow> net_ok (start_async s op' (modify s (\<lambda>x. x\<lparr>registered := b\<rparr>)
      ((finish_async s op n)\<lparr>registry := SessionRegistry_Add f session (registry n)\<rparr>)))"
    and "net_ok (snd (RemoveFromRegistry ops J s r (finish_async s op n)))"
proof -
  let ?x = "(heap n s)\<lparr>pending := remove1 op (pending (heap n s))\<rparr>"
  have idle: "idle ?x" using control_finished [OF net_ok_session [OF ok] op] .
  note alloc = allocated [OF ok op]
  show "net_ok (snd (Fail ops J s r (finish_async s op n)))"
    by (rule Fail_keeps [OF ok idleD [OF idle]]) (use alloc in simp_all)
  show "net_ok (start_async s op' n')" if "is_control op'" "heap n' = heap (finish_async s op n)"
    "next_address n' = next_address n" "umap_wf (registry n')"
    by (rule net_ok_update [OF ok control_started [OF idle that(1)]]) (use alloc that in simp_all)
  show "net_ok (start_async s op' (modify s (\<lambda>x. x\<lparr>registered := b\<rparr>)
      ((finish_async s op n)\<lparr>registry := SessionRegistry_Add f session (registry n)\<rparr>)))" if "is_control op'"
    by (rule net_ok_update [OF ok control_started [OF session_ok_flags(6) [OF idle] that]])
      (use alloc umap_wf_registry_step [OF ok] in simp_all)
  show "net_ok (snd (RemoveFromRegistry ops J s r (finish_async s op n)))"
    by (rule net_ok_update [OF ok idleD [OF session_ok_flags(6) [OF idle, of False]]])
      (use alloc umap_wf_registry_step [OF ok] in simp_all)
qed

lemma OnRead_keeps:
  assumes ok: "net_ok n" and op: "AsyncRead \<in> set (pending (heap n s))"
    and run: "OnRead ops J draws s result r (finish_async s AsyncRead n) = (out, r', n')"
  shows "out = None \<Longrightarrow> net_ok n'"
proof -
  assume out: "out = None"
  note keeps = control_handler_keeps [OF ok op control_op(3)]
  show "net_ok n'"
  proof (cases result)
    case ReadClosed
    with run keeps(4) [of ops J r] show ?thesis by (auto simp: OnRead_def case_prod_beta)
  next
    case ReadError
    with run keeps(1) [of ops J r] show ?thesis by (auto simp: OnRead_def case_prod_beta)
  next
    case (ReadMessage is_text t)
    then obtain n1 where "n' = ReadNext s n1" "heap n1 = heap (finish_async s AsyncRead n)"
      "next_address n1 = next_address n" "registry n1 = registry n"
      using run out OnRead_message [of ops J draws s is_text t r "finish_async s AsyncRead n" r' n'] by auto
    then show ?thesis
      using keeps(2) [OF control_op(3), of n1] umap_wf_registry_step(3) [OF ok] by (simp add: ReadNext_def)
  qed
qed

lemma on_write_keeps:
  assumes ok: "net_ok n" and t: "first_write (pending (heap n s)) = Some t"
  shows "net_ok (snd (on_write ops J s error r (complete_write s t error n)))"
proof -
  have "session_ok (heap n s)" using net_ok_session [OF ok] .
  note w = in_flight [OF this t]
  note dormant = net_ok_dormant [OF ok, of s, unfolded dormant_def]
  show ?thesis
  proof (cases error)
    case True
    have "session_ok ((heap n s)\<lparr>pending := remove1 (AsyncWrite t) (pending (heap n s)), closing := True\<rparr>)"
      using session_ok_write_failed [OF \<open>session_ok (heap n s)\<close> w(1)] by (simp add: session_ok_def failed_def)
    then have "net_ok (snd (Fail ops J s r (modify s (\<lambda>x. x\<lparr>closing := True\<rparr>) (finish_async s (AsyncWrite t) n))))"
      by (rule Fail_keeps [OF ok]) (use dormant in \<open>simp_all add: dormant_def filter_remove1\<close>)
    moreover have "snd (Fail ops J s r (modify s (\<lambda>x. x\<lparr>closing := True\<rparr>) (finish_async s (AsyncWrite t) n)))
      = snd (Fail ops J s r (finish_async s (AsyncWrite t) n))"
      by (simp add: Fail_def modify_def finish_async_def)
    ultimately show ?thesis using True by (simp add: on_write_def complete_write_def Let_def)
  next
    case False
    show ?thesis
      by (rule net_ok_update [OF ok session_ok_flags(4) [OF session_ok_written [OF \<open>session_ok (heap n s)\<close> w(1)]]])
        (use dormant umap_wf_registry_step [OF ok]
          in \<open>auto simp: on_write_effect [OF False w(1)] dormant_def Let_def filter_remove1\<close>)
  qed
qed

lemma open_session_keeps: "net_ok n \<Longrightarrow> net_ok (open_session ssl draw n)"
  using control_started [OF Session_new_ok(2), of _ ssl draw]
  by (auto simp: net_ok_def open_session_def Let_def SslSession_Start_def PlainSession_Start_def
      AcceptWebSocket_def)

lemma close_done_ok:
  assumes "session_ok x"
  shows "session_ok (x\<lparr>pending := remove1 AsyncClose (pending x)\<rparr>)"
  using assms count_remove1_le [of AsyncClose "pending x" AsyncClose]
  by (auto simp: session_ok_def filter_remove1 split: if_splits)

lemma event_keeps_net_ok:
  assumes ok: "net_ok (net w)" and ev: "handle_event ops J e w = Some (None, w')"
  shows "net_ok (net w')"
  using ev
proof (cases rule: event_cases)
  case (task task tasks)
  then show ?thesis using run_task_keeps [OF ok] by simp
next
  case (handshake s error)
  then show ?thesis
    by (simp add: OnTlsHandshake_def AcceptWebSocket_def control_handler_keeps(1,2) [OF ok handshake(2) control_op(1)]
        umap_wf_registry_step(3) [OF ok])
next
  case (accept s error)
  then show ?thesis
    by (simp add: OnWebSocketAccept_def ReadNext_def Let_def
        control_handler_keeps(1,3) [OF ok accept(2) control_op(2)])
next
  case (read s result draws)
  show ?thesis by (rule OnRead_keeps [OF ok read(2,3)]) simp
next
  case (written s error t)
  then show ?thesis using on_write_keeps [OF ok written(2)] by simp
next
  case (closed s)
  show ?thesis
    by (rule net_ok_update [OF ok close_done_ok [OF net_ok_session [OF ok]]])
      (use net_ok_dormant [OF ok, of s] umap_wf_registry_step [OF ok]
        in \<open>simp_all add: closed dormant_def filter_remove1\<close>)
next
  case (opened s b)
  show ?thesis
    by (rule net_ok_update [OF ok session_ok_flags(2) [OF net_ok_session [OF ok]]])
      (use net_ok_dormant [OF ok, of s] umap_wf_registry_step [OF ok] in \<open>simp_all add: opened dormant_def\<close>)
next
  case (tcp ssl draw)
  then show ?thesis using open_session_keeps [OF ok] by simp
qed (use ok in \<open>simp_all add: net_ok_def\<close>)

section \<open>Order of messages\<close>

text \<open>
  All messages that were ever sent to a session, in the order of the \<^verbatim>\<open>Send\<close> calls: those
  written, those in the write queue, those in tasks that have not run.
\<close>

definition messages_to :: "address \<Rightarrow> Task list \<Rightarrow> string list" where
  "messages_to s tasks =
     concat (map (\<lambda>task. case task of SendTask s' t \<Rightarrow> (if s' = s then [t] else []) | CloseTask s' \<Rightarrow> []) tasks)"

definition message_log :: "Net \<Rightarrow> address \<Rightarrow> string list" where
  "message_log n s = wire (heap n s) @ write_queue (heap n s) @ messages_to s (posted n)"

definition sent :: "Session \<Rightarrow> string list" where
  "sent x = wire x @ write_queue x"

lemma messages_to_simps [simp]:
  "messages_to s [] = []" "messages_to s (xs @ ys) = messages_to s xs @ messages_to s ys"
  "messages_to s (SendTask s' t # ts) = (if s' = s then [t] else []) @ messages_to s ts"
  "messages_to s (CloseTask s' # ts) = messages_to s ts"
  by (simp_all add: messages_to_def)

definition extends :: "Net \<Rightarrow> Net \<Rightarrow> address \<Rightarrow> bool" where
  "extends n n' s \<longleftrightarrow> (\<exists>ts. message_log n' s = message_log n s @ ts)"

lemma extends_trans: "extends n n' s \<Longrightarrow> extends n' n'' s \<Longrightarrow> extends n n'' s"
  by (auto simp: extends_def)

lemma extends_refl: "extends n n s"
  by (simp add: extends_def)

lemma log_grows:
  assumes "only_sends (posted n) (posted n')" and "sent (heap n' s) = sent (heap n s)"
  shows "extends n n' s"
  using assms by (auto simp: extends_def message_log_def only_sends_def sent_def simp flip: append_assoc)

lemma sent_flags [simp]:
  "sent (x\<lparr>registered := b\<rparr>) = sent x" "sent (x\<lparr>is_open := b\<rparr>) = sent x" "sent (x\<lparr>pending := ops\<rparr>) = sent x"
  "sent (x\<lparr>closing := b\<rparr>) = sent x" "sent (failed x) = sent x"
  by (simp_all add: sent_def failed_def)

lemma run_task_log:
  assumes "posted n = task # tasks"
  shows "extends n (snd (run_task ops J task r (n\<lparr>posted := tasks\<rparr>))) s"
proof (cases task)
  case (SendTask s' t)
  with assms show ?thesis
    by (auto simp: extends_def message_log_def run_task_def run_send_effect Let_def)
next
  case (CloseTask s')
  let ?n = "n\<lparr>posted := tasks\<rparr>"
  have "extends ?n (snd (run_close ops J s' r ?n)) s"
    using run_close_effect(4) [of ?n ops J s' r]
    by (intro log_grows) (auto simp: run_close_effect(1) sent_def failed_def)
  with assms CloseTask show ?thesis by (simp add: extends_def message_log_def run_task_def)
qed

lemma Fail_log:
  assumes "only_sends (posted n) (posted n1)" and "posted n1 = posted n" and "sent (heap n1 s') = sent (heap n s')"
  shows "extends n (snd (Fail ops J s r n1)) s'"
  by (rule log_grows) (use assms Fail_effect(4) [of n1 ops J s r] in auto)

lemma on_write_log:
  assumes ok: "net_ok n" and t: "first_write (pending (heap n s)) = Some t"
  shows "extends n (snd (on_write ops J s error r (complete_write s t error n))) s'"
proof (cases error)
  case True
  show ?thesis
    using True Fail_log [of n "finish_async s (AsyncWrite t) n" s' ops J s r]
    by (simp add: on_write_def complete_write_def Let_def)
next
  case False
  note w = in_flight [OF net_ok_session [OF ok] t]
  then have q: "write_queue (heap n s) = t # tl (write_queue (heap n s))" by (metis list.collapse)
  show ?thesis
    by (rule log_grows) (use q in \<open>auto simp: on_write_effect [OF False w(1)] sent_def Let_def\<close>)
qed

lemma OnRead_log:
  assumes "OnRead ops J draws s result r n1 = (None, r', n')" and "posted n1 = posted n"
    and "sent (heap n1 s') = sent (heap n s')"
  shows "extends n n' s'"
  using assms(1)
proof (cases rule: OnRead_cases)
  case closed
  then have "n' = snd (RemoveFromRegistry ops J s r n1)" by simp
  then show ?thesis
    using RemoveFromRegistry_effect(4) [of n1 ops J s r] assms(2,3) by (intro log_grows) auto
next
  case error
  then show ?thesis using Fail_log [of n n1 s' ops J s r] assms(2,3) by simp
next
  case message
  then show ?thesis using assms(2,3) by (intro log_grows) (auto simp: ReadNext_def)
qed

lemma event_log:
  assumes ok: "net_ok (net w)" and ev: "handle_event ops J e w = Some (None, w')"
    and s: "s < next_address (net w)"
  shows "extends (net w) (net w') s"
  using ev
proof (cases rule: event_cases)
  case (task task tasks)
  then show ?thesis using run_task_log [OF task(2)] by simp
next
  case (handshake s' error)
  then show ?thesis
    using Fail_log [of "net w" "finish_async s' AsyncHandshake (net w)" s ops J s' "repository w"]
    by (cases error) (simp_all add: OnTlsHandshake_def AcceptWebSocket_def log_grows)
next
  case (accept s' error)
  then show ?thesis
    using Fail_log [of "net w" "finish_async s' AsyncAccept (net w)" s ops J s' "repository w"]
    by (cases error) (simp_all add: OnWebSocketAccept_def ReadNext_def Let_def log_grows)
next
  case (read s' result draws)
  show ?thesis by (rule OnRead_log [OF read(3)]) simp_all
next
  case (written s' error t)
  then show ?thesis using on_write_log [OF ok written(2)] by simp
next
  case (tcp ssl draw)
  then show ?thesis
    using s by (auto simp: open_session_def Let_def SslSession_Start_def PlainSession_Start_def
        AcceptWebSocket_def intro!: log_grows)
next
  case (close s')
  then show ?thesis by (simp add: extends_def message_log_def)
qed (simp_all add: extends_refl log_grows)

text \<open>Identifiers are given once and for all, and addresses are never given back.\<close>

lemma failed_frame [simp]:
  "participant_id (failed x) = participant_id x" "is_ssl (failed x) = is_ssl x" "wire (failed x) = wire x"
  by (simp_all add: failed_def)

lemma OnRead_frame:
  assumes "OnRead ops J draws s result r n = (None, r', n')"
  shows "participant_id (heap n' s') = participant_id (heap n s') \<and> is_ssl (heap n' s') = is_ssl (heap n s')
    \<and> wire (heap n' s') = wire (heap n s') \<and> next_address n' = next_address n"
  using assms
proof (cases rule: OnRead_cases)
  case closed
  then have "n' = snd (RemoveFromRegistry ops J s r n)" by simp
  then show ?thesis by simp
next
  case error
  then have "n' = snd (Fail ops J s r n)" by simp
  then show ?thesis by simp
qed (simp add: ReadNext_def)

lemmas handler_effects =
  run_task_def run_send_effect run_close_effect OnTlsHandshake_def AcceptWebSocket_def
  OnWebSocketAccept_def ReadNext_def on_write_def complete_write_def open_session_def
  SslSession_Start_def PlainSession_Start_def Session_new_def Let_def

lemma event_next_address:
  assumes "handle_event ops J e w = Some (None, w')"
  shows "next_address (net w) \<le> next_address (net w')"
  using assms
proof (cases rule: event_cases)
  case (read s result draws)
  then show ?thesis using OnRead_frame [OF read(3)] by simp
qed (auto simp: handler_effects split: Task.splits)

lemma event_ids:
  assumes "handle_event ops J e w = Some (None, w')"
  shows "participant_id (heap (net w') s) = participant_id (heap (net w) s)
    \<or> s = next_address (net w) \<and> (\<exists>draw. participant_id (heap (net w') s) = GenerateParticipantId draw)"
  using assms
proof (cases rule: event_cases)
  case (read s' result draws)
  then show ?thesis using OnRead_frame [OF read(3), of s] by simp
qed (auto simp: handler_effects split: Task.splits)

text \<open>What is on the wire stays there.\<close>

lemma event_wire:
  assumes "handle_event ops J e w = Some (None, w')" and "s < next_address (net w)"
  shows "\<exists>ts. wire (heap (net w') s) = wire (heap (net w) s) @ ts"
  using assms(1)
proof (cases rule: event_cases)
  case (read s' result draws)
  then show ?thesis using OnRead_frame [OF read(3), of s] by simp
next
  case (written s' error t)
  then show ?thesis by (auto simp: handler_effects)
qed (use assms(2) in \<open>auto simp: handler_effects split: Task.splits\<close>)

section \<open>Reachable states\<close>

text \<open>\<^verbatim>\<open>Server::Run\<close> starts the listener and then runs the events.\<close>

definition Server_Run :: "Listener \<Rightarrow> 'r \<Rightarrow> 'r World" where
  "Server_Run l r = \<lparr>listener = Listener_Start l, repository = r, net = net_start, stopped = False\<rparr>"

lemma reachable_net_ok: "reachable ops J env w0 w \<Longrightarrow> net_ok (net w0) \<Longrightarrow> net_ok (net w)"
  by (induction rule: reachable.induct) (auto intro: event_keeps_net_ok)

lemma Server_Run_ok: "net_ok (net (Server_Run l r))"
  by (simp add: Server_Run_def net_start_ok)

lemma reachable_log:
  assumes "reachable ops J env w0 w" and "net_ok (net w0)" and "s < next_address (net w0)"
  shows "extends (net w0) (net w) s \<and> next_address (net w0) \<le> next_address (net w)
    \<and> (\<exists>ts. wire (heap (net w) s) = wire (heap (net w0) s) @ ts)"
  using assms
proof (induction rule: reachable.induct)
  case (event w e w')
  then have IH: "extends (net w0) (net w) s" "next_address (net w0) \<le> next_address (net w)"
    "\<exists>ts. wire (heap (net w) s) = wire (heap (net w0) s) @ ts" and s: "s < next_address (net w)" by auto
  have "net_ok (net w)" using event.hyps(1) event.prems(1) by (rule reachable_net_ok)
  then have "extends (net w) (net w') s" using event.hyps(3) s by (rule event_log)
  with IH event_next_address [OF event.hyps(3)] event_wire [OF event.hyps(3) s] show ?case
    using extends_trans by fastforce
qed (simp add: extends_refl)

text \<open>A first client, connected without TLS: an example run.\<close>

definition demo_world :: "InMemoryRoomRepository World" where
  "demo_world = Server_Run \<lparr>acceptor_open = True, tls_enabled = False, accepts = 0\<rparr> InMemory_new"

definition any_event :: "Event \<Rightarrow> 'r World \<Rightarrow> bool" where
  "any_event e w = True"

fun run_events ::
  "('r, UpdateCaptures) RoomRepository \<Rightarrow> 'j json_api \<Rightarrow> Event list \<Rightarrow> 'r World \<Rightarrow> 'r World option"
where
  "run_events ops J [] w = Some w"
| "run_events ops J (e # es) w =
     (case handle_event ops J e w of Some (None, w') \<Rightarrow> run_events ops J es w' | _ \<Rightarrow> None)"

lemma run_events_reachable:
  assumes "reachable ops J any_event w0 w" and "run_events ops J es w = Some w'"
  shows "reachable ops J any_event w0 w'"
  using assms
proof (induction es arbitrary: w)
  case (Cons e es)
  then obtain w1 where "handle_event ops J e w = Some (None, w1)" "run_events ops J es w1 = Some w'"
    by (auto split: option.splits prod.splits)
  with Cons show ?case by (auto simp: any_event_def intro: reachable.event)
qed simp

lemma run_events_append:
  "run_events ops J (es @ es') w =
     (case run_events ops J es w of None \<Rightarrow> None | Some w' \<Rightarrow> run_events ops J es' w')"
  by (induction es arbitrary: w) (auto split: option.splits)

definition demo_connect :: "Event list" where
  "demo_connect = [TcpAccepted False 7, AcceptDone 0 False]"

lemma demo_connected:
  "\<exists>w. run_events (mem_ops stored_order) text_api demo_connect demo_world = Some w
     \<and> pending (heap (net w) 0) = [AsyncRead] \<and> registered (heap (net w) 0)
     \<and> \<not> stopped w \<and> next_address (net w) = 1 \<and> repository w = InMemory_new \<and> posted (net w) = []
     \<and> participant_id (heap (net w) 0) = GenerateParticipantId 7 \<and> \<not> closing (heap (net w) 0)
     \<and> write_queue (heap (net w) 0) = [] \<and> wire (heap (net w) 0) = []"
  by (simp add: demo_connect_def demo_world_def Server_Run_def net_start_def handle_event_def on_net_def Let_def
      OnAccept_def open_session_def PlainSession_Start_def AcceptWebSocket_def OnWebSocketAccept_def
      ReadNext_def Listener_Start_def AcceptNext_def Session_new_def start_async_def finish_async_def modify_def)

text \<open>The client sends a binary message, and the answer is posted; then it is being written.\<close>

definition demo_binary :: "Event list" where
  "demo_binary = [ReadDone 0 (ReadMessage False []) (\<lambda>i. i)]"

lemma demo_answered:
  "\<exists>w t. run_events (mem_ops stored_order) text_api (demo_connect @ demo_binary) demo_world = Some w
     \<and> pending (heap (net w) 0) = [AsyncRead] \<and> registered (heap (net w) 0)
     \<and> \<not> stopped w \<and> next_address (net w) = 1 \<and> repository w = InMemory_new \<and> posted (net w) = [SendTask 0 t]
     \<and> participant_id (heap (net w) 0) = GenerateParticipantId 7 \<and> \<not> closing (heap (net w) 0)
     \<and> write_queue (heap (net w) 0) = [] \<and> wire (heap (net w) 0) = []"
proof -
  obtain w where w: "run_events (mem_ops stored_order) text_api demo_connect demo_world = Some w"
    "pending (heap (net w) 0) = [AsyncRead]" "registered (heap (net w) 0)"
    "\<not> stopped w" "next_address (net w) = 1" "repository w = InMemory_new" "posted (net w) = []"
    "participant_id (heap (net w) 0) = GenerateParticipantId 7" "\<not> closing (heap (net w) 0)"
    "write_queue (heap (net w) 0) = []" "wire (heap (net w) 0) = []"
    using demo_connected by blast
  have "ascii ''invalid_message''" by (simp add: ascii_def)
  from text_json.EncodeProtocolError_view [OF this, of None None]
  obtain t where t: "InvalidMessageError text_api = Inr t"
    by (auto simp: InvalidMessageError_def request_id_utf8_def simp del: text_api_sel)
  let ?w = "w\<lparr>net := ReadNext 0 (Send 0 t (finish_async 0 AsyncRead (net w)))\<rparr>"
  have "handle_event (mem_ops stored_order) text_api (ReadDone 0 (ReadMessage False []) (\<lambda>i. i)) w = Some (None, ?w)"
    using w(2,4) t by (simp add: handle_event_def OnRead_def)
  then have "run_events (mem_ops stored_order) text_api (demo_connect @ demo_binary) demo_world = Some ?w"
    using w(1) by (simp add: run_events_append demo_binary_def)
  with w show ?thesis by (intro exI [of _ ?w] exI [of _ t]) (simp add: ReadNext_def)
qed

lemma demo_writing:
  assumes "\<not> stopped w" and "posted (net w) = [SendTask 0 t]" and "pending (heap (net w) 0) = [AsyncRead]"
    and "write_queue (heap (net w) 0) = []" and "\<not> closing (heap (net w) 0)"
  obtains w' where "handle_event ops J RunTask w = Some (None, w')" "\<not> stopped w'" "posted (net w') = []"
    "repository w' = repository w" "registry (net w') = registry (net w)" "next_address (net w') = next_address (net w)"
    "heap (net w') = (heap (net w))(0 := (heap (net w) 0)\<lparr>write_queue := [t], pending := [AsyncRead, AsyncWrite t]\<rparr>)"
  using assms
  by (intro that [of "snd (on_net (\<lambda>r n. run_task ops J (SendTask 0 t) r (n\<lparr>posted := []\<rparr>)) w)"])
    (simp_all add: handle_event_def on_net_def run_task_def run_send_effect Let_def)

section \<open>Properties of the running server\<close>

text \<open>
  C21. In every reachable state, whatever the clients send and however operations complete or
  fail, a session has at most one write in progress, namely of the first text of its queue, and
  at most one of handshake, accept and read, as the WebSocket library requires; and no message
  gets stuck: unless the session is closing, a text in the queue means that a write is in progress.
\<close>

theorem one_operation_at_a_time:
  assumes "reachable ops J env (Server_Run l r) w"
  shows "(writes (pending (heap (net w) s)) = []
      \<or> write_queue (heap (net w) s) \<noteq> [] \<and> writes (pending (heap (net w) s)) = [hd (write_queue (heap (net w) s))])
    \<and> length (filter is_control (pending (heap (net w) s))) \<le> 1
    \<and> (\<not> closing (heap (net w) s) \<and> write_queue (heap (net w) s) \<noteq> [] \<longrightarrow> writes (pending (heap (net w) s)) \<noteq> [])"
  using reachable_net_ok [OF assms Server_Run_ok] by (auto simp: net_ok_def session_ok_def)

theorem one_operation_at_a_time_witness:
  "\<exists>w. reachable (mem_ops stored_order) text_api any_event demo_world w
     \<and> pending (heap (net w) 0) = [AsyncRead]
     \<and> length (filter is_control (pending (heap (net w) 0))) \<le> 1"
proof -
  obtain w where w: "run_events (mem_ops stored_order) text_api demo_connect demo_world = Some w"
    "pending (heap (net w) 0) = [AsyncRead]"
    using demo_connected by blast
  have "reachable (mem_ops stored_order) text_api any_event demo_world w"
    by (rule run_events_reachable [OF reachable.start w(1)])
  with w(2) show ?thesis
    using one_operation_at_a_time [of "mem_ops stored_order" text_api any_event _ InMemory_new w 0]
    unfolding demo_world_def by blast
qed

text \<open>
  C22. Messages to a session are never lost, duplicated or reordered: along every run, the
  sequence of texts sent to it (written, queued and posted, in that order) is only extended at
  its end, so what has been written on the wire is always the beginning of what was sent.
\<close>

theorem messages_in_order:
  assumes "reachable ops J env (Server_Run l r) w" and "reachable ops J env w w'"
    and "s < next_address (net w)"
  shows "(\<exists>later. message_log (net w') s = message_log (net w) s @ later)
    \<and> (\<exists>ts rest. wire (heap (net w') s) = wire (heap (net w) s) @ ts
          \<and> message_log (net w') s = wire (heap (net w) s) @ ts @ rest)"
proof -
  from reachable_log [OF assms(2) reachable_net_ok [OF assms(1) Server_Run_ok] assms(3)]
  obtain later ts where "message_log (net w') s = message_log (net w) s @ later"
    "wire (heap (net w') s) = wire (heap (net w) s) @ ts"
    by (auto simp: extends_def)
  moreover from this(2)
  have "message_log (net w') s = wire (heap (net w) s) @ ts @ write_queue (heap (net w') s) @ messages_to s (posted (net w'))"
    by (simp add: message_log_def)
  ultimately show ?thesis by blast
qed

theorem messages_in_order_witness:
  "\<exists>w w' t. reachable (mem_ops stored_order) text_api any_event demo_world w \<and> message_log (net w) 0 = [t]
     \<and> reachable (mem_ops stored_order) text_api any_event w w'
     \<and> (\<exists>later. wire (heap (net w') 0) = [t] \<and> message_log (net w') 0 = [t] @ later)"
proof -
  let ?ops = "mem_ops stored_order"
  obtain w t where w: "run_events ?ops text_api (demo_connect @ demo_binary) demo_world = Some w"
    "pending (heap (net w) 0) = [AsyncRead]" "\<not> stopped w" "next_address (net w) = 1" "posted (net w) = [SendTask 0 t]"
    "\<not> closing (heap (net w) 0)" "write_queue (heap (net w) 0) = []" "wire (heap (net w) 0) = []"
    using demo_answered by blast
  obtain w1 where w1: "handle_event ?ops text_api RunTask w = Some (None, w1)" "\<not> stopped w1"
    "heap (net w1) = (heap (net w))(0 := (heap (net w) 0)\<lparr>write_queue := [t], pending := [AsyncRead, AsyncWrite t]\<rparr>)"
    using demo_writing [OF w(3,5,2,7,6)] by metis
  let ?w2 = "snd (on_net (\<lambda>r n. on_write ?ops text_api 0 False r (complete_write 0 t False n)) w1)"
  have ev2: "handle_event ?ops text_api (WriteDone 0 False) w1 = Some (None, ?w2)"
    using w1 by (simp add: handle_event_def on_net_def case_prod_beta Let_def)
  have run: "reachable ?ops text_api any_event demo_world w"
    by (rule run_events_reachable [OF reachable.start w(1)])
  have run2: "reachable ?ops text_api any_event w ?w2"
    by (rule run_events_reachable [OF reachable.start, where es = "[RunTask, WriteDone 0 False]"]) (simp add: w1(1) ev2)
  have "message_log (net w) 0 = [t]" using w by (simp add: message_log_def)
  moreover have "wire (heap (net ?w2) 0) = [t]"
    using w w1 by (simp add: on_net_def case_prod_beta on_write_def complete_write_def Let_def)
  moreover have "\<exists>later. message_log (net ?w2) 0 = message_log (net w) 0 @ later"
    using messages_in_order [OF run [unfolded demo_world_def] run2, of 0] w(4) by simp
  ultimately show ?thesis using run run2 by (intro exI [of _ w] exI [of _ ?w2] exI [of _ t]) simp
qed

end
