(* ===== verification/Delivery.thy ===== *)
theory Delivery
  imports Runtime
begin

text \<open>
  Progress of the event loop: the queue of posted tasks always drains, although a task may post
  further ones, and what was sent to a session that stays open reaches the wire.
\<close>

section \<open>Running the posted tasks\<close>

fun is_close :: "Task \<Rightarrow> bool" where
  "is_close (CloseTask s) = True"
| "is_close (SendTask s t) = False"

lemma is_close_sends [simp]: "filter is_close (map (\<lambda>m. SendTask (fst m) (snd m)) ms) = []"
  by (induction ms) simp_all

text \<open>
  A send posts nothing; a close may post any number of sends, but no close. So the number of
  closes, and then the number of tasks, goes down.
\<close>

definition task_order :: "('r World \<times> 'r World) set" where
  "task_order = inv_image (less_than <*lex*> less_than)
     (\<lambda>w. (length (filter is_close (posted (net w))), length (posted (net w))))"

lemma wf_task_order: "wf task_order"
  by (simp add: task_order_def wf_lex_prod)

lemma run_task_event:
  assumes "\<not> stopped w" and "posted (net w) = task # tasks"
  obtains w' where "handle_event ops J RunTask w = Some (None, w')" "\<not> stopped w'"
    "net w' = snd (run_task ops J task (repository w) ((net w)\<lparr>posted := tasks\<rparr>))"
  using assms by (simp add: handle_event_def on_net_def Let_def case_prod_beta)

lemma run_task_posted:
  "\<exists>ms. posted (snd (run_task ops J task r n)) = posted n @ map (\<lambda>m. SendTask (fst m) (snd m)) ms
     \<and> (is_close task \<or> ms = [])"
proof (cases task)
  case (SendTask s t)
  then show ?thesis by (intro exI [of _ "[]"]) (simp add: run_task_def run_send_effect)
next
  case (CloseTask s)
  then show ?thesis using run_close_effect(4) [of n ops J s r] by (auto simp: run_task_def only_sends_def)
qed

lemma run_task_closing:
  assumes "task \<noteq> CloseTask s"
  shows "closing (heap (snd (run_task ops J task r n)) s) = closing (heap n s)"
  using assms by (cases task) (auto simp: run_task_def run_send_effect run_close_effect failed_def Let_def)

lemma tasks_drain_open:
  assumes "\<not> stopped w"
  shows "\<exists>k w'. run_events ops J (replicate k RunTask) w = Some w' \<and> posted (net w') = [] \<and> \<not> stopped w'
    \<and> (CloseTask s \<notin> set (posted (net w)) \<longrightarrow> closing (heap (net w') s) = closing (heap (net w) s))"
  using wf_task_order assms
proof (induction w rule: wf_induct_rule)
  case (less w)
  show ?case
  proof (cases "posted (net w)")
    case Nil
    with less.prems show ?thesis by (intro exI [of _ 0] exI [of _ w]) simp
  next
    case (Cons task tasks)
    obtain w1 where w1: "handle_event ops J RunTask w = Some (None, w1)" "\<not> stopped w1"
      "net w1 = snd (run_task ops J task (repository w) ((net w)\<lparr>posted := tasks\<rparr>))"
      using run_task_event [OF less.prems Cons] .
    obtain ms where ms: "posted (net w1) = tasks @ map (\<lambda>m. SendTask (fst m) (snd m)) ms" "is_close task \<or> ms = []"
      using run_task_posted [of ops J task "repository w" "(net w)\<lparr>posted := tasks\<rparr>"] w1(3) by auto
    then have "(w1, w) \<in> task_order" using Cons by (auto simp: task_order_def)
    then obtain k w' where k: "run_events ops J (replicate k RunTask) w1 = Some w'" "posted (net w') = []" "\<not> stopped w'"
      "CloseTask s \<notin> set (posted (net w1)) \<longrightarrow> closing (heap (net w') s) = closing (heap (net w1) s)"
      using less.IH w1(2) by blast
    have "closing (heap (net w1) s) = closing (heap (net w) s)" if "task \<noteq> CloseTask s"
      by (simp add: run_task_closing [OF that] w1(3))
    then show ?thesis
      using k ms Cons w1(1) by (intro exI [of _ "Suc k"] exI [of _ w']) auto
  qed
qed

section \<open>Writing the queue\<close>

lemma write_event:
  assumes ok: "net_ok (net w)" and "\<not> stopped w" and q: "write_queue (heap (net w) s) = t # ts"
    and open_session: "\<not> closing (heap (net w) s)"
  obtains w' where "handle_event ops J (WriteDone s False) w = Some (None, w')" "\<not> stopped w'"
    "posted (net w') = posted (net w)" "\<not> closing (heap (net w') s)" "write_queue (heap (net w') s) = ts"
    "wire (heap (net w') s) = wire (heap (net w) s) @ [t]"
proof -
  have "writes (pending (heap (net w) s)) = [t]"
    using net_ok_session [OF ok, of s] q open_session by (auto simp: session_ok_def)
  then have first: "first_write (pending (heap (net w) s)) = Some t"
    using first_write_None [of "pending (heap (net w) s)"] first_write_Some [of "pending (heap (net w) s)"]
    by (cases "first_write (pending (heap (net w) s))") auto
  note w = on_write_effect [OF not_False_eq_True [THEN eqTrueE] \<open>writes (pending (heap (net w) s)) = [t]\<close>]
  show ?thesis
    by (rule that [of "w\<lparr>repository := fst (on_write ops J s False (repository w) (complete_write s t False (net w))),
        net := snd (on_write ops J s False (repository w) (complete_write s t False (net w)))\<rparr>"])
      (use assms first in \<open>auto simp: handle_event_def on_net_def Let_def case_prod_beta w\<close>)
qed

lemma queue_drains:
  assumes "net_ok (net w)" and "\<not> stopped w" and "\<not> closing (heap (net w) s)"
  shows "\<exists>k w'. run_events ops J (replicate k (WriteDone s False)) w = Some w' \<and> posted (net w') = posted (net w)
    \<and> write_queue (heap (net w') s) = [] \<and> wire (heap (net w') s) = wire (heap (net w) s) @ write_queue (heap (net w) s)"
  using assms
proof (induction "write_queue (heap (net w) s)" arbitrary: w)
  case Nil
  then show ?case by (intro exI [of _ 0] exI [of _ w]) simp
next
  case (Cons t ts)
  obtain w1 where w1: "handle_event ops J (WriteDone s False) w = Some (None, w1)" "\<not> stopped w1"
    "posted (net w1) = posted (net w)" "\<not> closing (heap (net w1) s)" "write_queue (heap (net w1) s) = ts"
    "wire (heap (net w1) s) = wire (heap (net w) s) @ [t]"
    by (rule write_event [OF Cons.prems(1,2) Cons.hyps(2) [symmetric] Cons.prems(3)])
  from Cons.hyps(1) [OF w1(5) [symmetric] event_keeps_net_ok [OF Cons.prems(1) w1(1)] w1(2,4)]
  obtain k w' where "run_events ops J (replicate k (WriteDone s False)) w1 = Some w'" "posted (net w') = posted (net w)"
    "write_queue (heap (net w') s) = []" "wire (heap (net w') s) = wire (heap (net w) s) @ [t] @ ts"
    using w1 by auto
  then show ?case using w1(1) Cons.hyps(2) by (intro exI [of _ "Suc k"] exI [of _ w']) simp
qed

lemma run_events_log:
  assumes "run_events ops J es w = Some w'" and "net_ok (net w)" and "s < next_address (net w)"
  shows "extends (net w) (net w') s \<and> net_ok (net w')"
  using assms
proof (induction es arbitrary: w)
  case (Cons e es)
  then obtain w1 where w1: "handle_event ops J e w = Some (None, w1)" "run_events ops J es w1 = Some w'"
    by (auto split: option.splits prod.splits)
  with Cons event_log [OF Cons.prems(2) w1(1)] event_keeps_net_ok [OF Cons.prems(2) w1(1)]
    event_next_address [OF w1(1)] show ?case
    using extends_trans by (meson less_le_trans)
qed (simp add: extends_refl)

section \<open>Properties\<close>

text \<open>
  C23. The queue of posted tasks drains: as long as the server is not stopped, finitely many turns
  of the event loop, and no other event, empty it, and then no task is left to run. (A close may
  post events to other sessions, but those post nothing.)
\<close>

theorem posted_tasks_drain:
  assumes "\<not> stopped w"
  shows "\<exists>k w'. run_events ops J (replicate k RunTask) w = Some w' \<and> posted (net w') = []
    \<and> handle_event ops J RunTask w' = None"
proof -
  obtain k w' where "run_events ops J (replicate k RunTask) w = Some w'" "posted (net w') = []"
    using tasks_drain_open [OF assms] by blast
  then show ?thesis by (intro exI [of _ k] exI [of _ w']) (simp add: handle_event_def Let_def)
qed

theorem posted_tasks_drain_witness:
  "\<exists>k w'. run_events (mem_ops stored_order) text_api (replicate k RunTask)
       (demo_world\<lparr>net := Close 0 (Send 0 ''hello'' (net demo_world))\<rparr>) = Some w' \<and> posted (net w') = []"
  using posted_tasks_drain [of "demo_world\<lparr>net := Close 0 (Send 0 ''hello'' (net demo_world))\<rparr>"
      "mem_ops stored_order" text_api]
  by (auto simp: demo_world_def Server_Run_def)

text \<open>
  C10. What is sent is delivered: from every reachable state, when the posted tasks run and the
  writes to a session succeed, everything that was sent to the session before (and whatever is sent
  to it meanwhile) is written, in the order in which it was sent, and its queue is empty; provided
  the session is not closing and no close of it has been posted.
\<close>

theorem sent_messages_delivered:
  assumes "reachable ops J env (Server_Run l r) w" and "\<not> stopped w" and "s < next_address (net w)"
    and "\<not> closing (heap (net w) s)" and "CloseTask s \<notin> set (posted (net w))"
  shows "\<exists>j k w' later. run_events ops J (replicate j RunTask @ replicate k (WriteDone s False)) w = Some w'
    \<and> wire (heap (net w') s) = message_log (net w) s @ later
    \<and> write_queue (heap (net w') s) = [] \<and> posted (net w') = []"
proof -
  have ok: "net_ok (net w)" by (rule reachable_net_ok [OF assms(1) Server_Run_ok])
  obtain j w1 where w1: "run_events ops J (replicate j RunTask) w = Some w1" "posted (net w1) = []" "\<not> stopped w1"
    "\<not> closing (heap (net w1) s)"
    using tasks_drain_open [OF assms(2), of ops J s] assms(4,5) by blast
  from run_events_log [OF w1(1) ok assms(3)]
  obtain later where later: "message_log (net w1) s = message_log (net w) s @ later" and ok1: "net_ok (net w1)"
    by (auto simp: extends_def)
  obtain k w' where "run_events ops J (replicate k (WriteDone s False)) w1 = Some w'" "posted (net w') = []"
    "write_queue (heap (net w') s) = []"
    "wire (heap (net w') s) = wire (heap (net w1) s) @ write_queue (heap (net w1) s)"
    using queue_drains [OF ok1 w1(3,4), of ops J] w1(2) by auto
  moreover from this(4) later w1(2) have "wire (heap (net w') s) = message_log (net w) s @ later"
    by (simp add: message_log_def)
  ultimately show ?thesis
    using w1(1) by (intro exI [of _ j] exI [of _ k] exI [of _ w'] exI [of _ later]) (simp add: run_events_append)
qed

theorem sent_messages_delivered_witness:
  "\<exists>w t. run_events (mem_ops stored_order) text_api (demo_connect @ demo_binary) demo_world = Some w
     \<and> wire (heap (net w) 0) = [] \<and> message_log (net w) 0 = [t]
     \<and> (\<exists>j k w' later. run_events (mem_ops stored_order) text_api
           (replicate j RunTask @ replicate k (WriteDone 0 False)) w = Some w'
          \<and> wire (heap (net w') 0) = t # later)"
proof -
  obtain w t where w: "run_events (mem_ops stored_order) text_api (demo_connect @ demo_binary) demo_world = Some w"
    "\<not> stopped w" "next_address (net w) = 1" "posted (net w) = [SendTask 0 t]" "\<not> closing (heap (net w) 0)"
    "write_queue (heap (net w) 0) = []" "wire (heap (net w) 0) = []"
    using demo_answered by blast
  then have "message_log (net w) 0 = [t]" by (simp add: message_log_def)
  have "reachable (mem_ops stored_order) text_api any_event demo_world w"
    by (rule run_events_reachable [OF reachable.start w(1)])
  from sent_messages_delivered [OF this [unfolded demo_world_def] w(2), of 0] w(3-5)
  obtain j k w' later where "run_events (mem_ops stored_order) text_api
      (replicate j RunTask @ replicate k (WriteDone 0 False)) w = Some w'"
    "wire (heap (net w') 0) = message_log (net w) 0 @ later"
    by auto
  with w(1,7) \<open>message_log (net w) 0 = [t]\<close> show ?thesis
    by (rule_tac exI [of _ w], rule_tac exI [of _ t], intro conjI, simp_all)
      (rule_tac exI [of _ j], rule_tac exI [of _ k], rule_tac exI [of _ w'], simp)
qed

end
