(* ===== verification/Guarantees.thy ===== *)
theory Guarantees
  imports Runtime
begin

text \<open>
  What holds of the whole server at run time, with a repository that keeps its contract (locale
  \<open>room_service\<close>) and a JSON library that keeps its laws (locale \<open>nlohmann_json\<close>): no message
  makes a handler throw, the repository invariants hold in every reachable state, the registry
  mirrors the registered sessions, and whoever is in a room has a registered session, as long as no
  message is read from a session that has already been closed.
\<close>

section \<open>Valid UTF-8 from end to end\<close>

definition store_utf8 :: "(string \<Rightarrow> bool) \<Rightarrow> store \<Rightarrow> bool" where
  "store_utf8 utf8 m \<longleftrightarrow>
     (\<forall>code room. m code = Some room \<longrightarrow> utf8 code \<and> (\<forall>p \<in> set (GetParticipants room). participant_utf8 utf8 p))"

fun command_ok :: "'j json_api \<Rightarrow> (string \<Rightarrow> bool) \<Rightarrow> ('j \<Rightarrow> bool) \<Rightarrow> 'j CommandType \<Rightarrow> bool" where
  "command_ok J utf8 ok (CreateRoomCommand p password) \<longleftrightarrow> participant_utf8 utf8 p"
| "command_ok J utf8 ok (JoinRoomCommand code p password) \<longleftrightarrow> utf8 code \<and> participant_utf8 utf8 p"
| "command_ok J utf8 ok (LeaveRoomCommand code pid) \<longleftrightarrow> utf8 code \<and> utf8 pid"
| "command_ok J utf8 ok (SignalingCommand ty code sender target data) \<longleftrightarrow>
     utf8 code \<and> utf8 sender \<and> utf8 target \<and> is_object J data \<and> ok data"

definition result_ok :: "'j json_api \<Rightarrow> (string \<Rightarrow> bool) \<Rightarrow> ('j \<Rightarrow> bool) \<Rightarrow> 'j ControlDispatcherResult \<Rightarrow> bool" where
  "result_ok J utf8 ok res \<longleftrightarrow>
     response_utf8 utf8 (response res) \<and> (\<forall>e \<in> set (events res). event_utf8 utf8 e)
     \<and> (case response res of
          SuccessResponse mt (SignalingResponse ty code sender target data) \<Rightarrow>
            utf8 code \<and> utf8 sender \<and> utf8 target \<and> is_object J data \<and> ok data
        | _ \<Rightarrow> True)"

lemma store_utf8_empty [simp]: "store_utf8 utf8 Map.empty"
  by (simp add: store_utf8_def)

lemma store_utf8_leave_all: "store_utf8 utf8 m \<Longrightarrow> store_utf8 utf8 (store_leave_all pid m)"
  by (fastforce simp: store_utf8_def store_leave_all_def left_room_def bind_eq_Some_conv split: if_splits)

lemma remaining_utf8:
  "store_utf8 utf8 m \<Longrightarrow> \<forall>p \<in> set (remaining pid m code). participant_utf8 utf8 p"
  by (cases "m code") (auto simp: store_utf8_def remaining_def)

lemma store_dispatch_ok:
  assumes "store_utf8 utf8 m" and "command_ok J utf8 ok cmd" and "request_id_utf8 utf8 (request_id mt)"
    and "\<And>n. utf8 (GenerateRoomCode n)"
  shows "result_ok J utf8 ok (fst (store_dispatch draws mt cmd m))"
    and "store_utf8 utf8 (snd (store_dispatch draws mt cmd m))"
proof -
  have "result_ok J utf8 ok (fst (store_dispatch draws mt cmd m))
    \<and> store_utf8 utf8 (snd (store_dispatch draws mt cmd m))"
  proof (cases cmd)
    case (CreateRoomCommand p password)
    then show ?thesis
      using assms by (auto simp: result_ok_def store_utf8_def Let_def split: option.splits)
  next
    case (JoinRoomCommand code p password)
    then show ?thesis
      using assms by (auto simp: result_ok_def store_utf8_def store_join_def split: option.splits)
  next
    case (LeaveRoomCommand code pid)
    then show ?thesis
      using assms by (fastforce simp: result_ok_def store_utf8_def store_leave_def split: option.splits if_splits)
  next
    case (SignalingCommand ty code sender target data)
    then show ?thesis using assms by (simp add: result_ok_def)
  qed
  then show "result_ok J utf8 ok (fst (store_dispatch draws mt cmd m))"
    "store_utf8 utf8 (snd (store_dispatch draws mt cmd m))" by blast+
qed

lemma ascii_generated: "ascii (GenerateRoomCode n)" "ascii (GenerateParticipantId draw)"
proof -
  let ?digits = "''0123456789abcdef''"
  have "set (show_base b n) \<subseteq> set ?digits" if "2 \<le> b" "b \<le> 16" for b n :: nat
    using set_show_base [OF that, of n] set_take_subset [of b ?digits] by (rule order_trans)
  moreover have "CHR ''0'' \<in> set ?digits" by simp
  ultimately have "set (setw_fill w CHR ''0'' (show_base b n)) \<subseteq> set ?digits" if "2 \<le> b" "b \<le> 16" for w b n
    using that set_setw_fill [of w "CHR ''0''" "show_base b n"] by blast
  then have "set (setw_fill w CHR ''0'' (show_base 10 n)) \<subseteq> set ?digits"
    "set (setw_fill w CHR ''0'' (show_base 16 n)) \<subseteq> set ?digits" for w n
    by (simp_all del: list.set)
  moreover have "ascii ''0123456789abcdef''" "ascii ''p_''" by (simp_all add: ascii_def)
  ultimately show "ascii (GenerateRoomCode n)" "ascii (GenerateParticipantId draw)"
    unfolding GenerateRoomCode_def GenerateParticipantId_def
    using ascii_subset by (simp_all only: ascii_append) blast+
qed

section \<open>The registry and the registered sessions\<close>

text \<open>A random 64-bit id can be drawn twice; the registry is exact as long as this has not happened.\<close>

definition distinct_ids :: "Net \<Rightarrow> bool" where
  "distinct_ids n \<longleftrightarrow> (\<forall>s t. s < next_address n \<longrightarrow> t < next_address n \<longrightarrow>
     participant_id (heap n s) = participant_id (heap n t) \<longrightarrow> s = t)"

definition mirror :: "Net \<Rightarrow> bool" where
  "mirror n \<longleftrightarrow> (\<forall>pid s. SessionRegistry_Find pid (registry n) = Some s \<longleftrightarrow>
     registered (heap n s) \<and> participant_id (heap n s) = pid)"

lemma mirror_iff: "mirror n \<longleftrightarrow>
    session_registry.mirrors SessionRegistry_Find (\<lambda>s. participant_id (heap n s)) (\<lambda>s. registered (heap n s)) (registry n)"
  by (simp add: mirror_def reg.mirrors_def)

lemma mirror_same:
  assumes "mirror n" and "registry n' = registry n"
    and "\<And>t. registered (heap n' t) = registered (heap n t)"
    and "\<And>t. participant_id (heap n' t) = participant_id (heap n t)"
  shows "mirror n'"
  using assms by (simp add: mirror_def)

lemma mirror_unregister:
  assumes "mirror n"
    and "registry n' = (if registered (heap n s) then SessionRegistry_Remove (participant_id (heap n s)) (registry n)
      else registry n)"
    and "\<And>t. registered (heap n' t) = (t \<noteq> s \<and> registered (heap n t))"
    and ids: "\<And>t. participant_id (heap n' t) = participant_id (heap n t)"
  shows "mirror n'"
proof (cases "registered (heap n s)")
  case True
  have live: "(\<lambda>t. registered (heap n' t)) = (\<lambda>t. registered (heap n t))(s := False)"
    using assms(3) by (simp add: fun_eq_iff)
  show ?thesis
    unfolding mirror_iff live ids
    using reg.mirrors_remove [OF assms(1) [unfolded mirror_iff] True] assms(2) True by simp
next
  case False
  with assms(3) have "registered (heap n' t) = registered (heap n t)" for t by (cases "t = s") simp_all
  with False assms(2) ids show ?thesis by (intro mirror_same [OF assms(1)]) simp_all
qed

lemma mirror_register:
  assumes "mirror n" and "net_ok n" and "distinct_ids n" and "s < next_address n"
    and "registry n' = SessionRegistry_Add (\<lambda>t. participant_id (heap n t)) (Some s) (registry n)"
    and "\<And>t. registered (heap n' t) = (t = s \<or> registered (heap n t))"
    and ids: "\<And>t. participant_id (heap n' t) = participant_id (heap n t)"
  shows "mirror n'"
proof -
  have "t = s" if "registered (heap n t)" "participant_id (heap n t) = participant_id (heap n s)" for t
    using that assms(2-4) net_ok_dormant [OF assms(2), of t] by (auto simp: distinct_ids_def dormant_def not_le [symmetric])
  moreover have live: "(\<lambda>t. registered (heap n' t)) = (\<lambda>t. registered (heap n t))(s := True)"
    using assms(6) by (simp add: fun_eq_iff)
  ultimately show ?thesis
    unfolding mirror_iff live ids
    using reg.mirrors_add [OF assms(1) [unfolded mirror_iff], of s] assms(5) by simp
qed

lemma mirror_OnRead:
  assumes m: "mirror n" and run: "OnRead ops J draws s result r n = (None, r', n')"
  shows "mirror n'"
  using run
proof (cases rule: OnRead_cases)
  case closed
  then have n': "n' = snd (RemoveFromRegistry ops J s r n)" by simp
  show ?thesis by (rule mirror_unregister [OF m, where s = s]) (simp_all add: n')
next
  case error
  then have n': "n' = snd (Fail ops J s r n)" by simp
  show ?thesis by (rule mirror_unregister [OF m, where s = s]) (simp_all add: n' failed_def)
next
  case message
  then show ?thesis by (intro mirror_same [OF m]) (simp_all add: ReadNext_def)
qed

lemma mirror_finish: "mirror n \<Longrightarrow> mirror (finish_async s op n)"
  by (erule mirror_same) simp_all

lemma mirror_Fail: "mirror n \<Longrightarrow> mirror (snd (Fail ops J s r n))"
  by (erule mirror_unregister [where s = s]) (simp_all add: failed_def)

lemma mirror_close: "mirror n \<Longrightarrow> mirror (snd (run_close ops J s r n))"
proof (cases "closing (heap n s)")
  case True
  assume "mirror n"
  then show ?thesis by (rule mirror_same) (use True in \<open>simp_all add: run_close_effect\<close>)
next
  case False
  assume "mirror n"
  then show ?thesis
    by (rule mirror_unregister [where s = s]) (use False in \<open>simp_all add: run_close_effect failed_def\<close>)
qed

lemma mirror_task:
  assumes "mirror n"
  shows "mirror (snd (run_task ops J task r (n\<lparr>posted := tasks\<rparr>)))"
proof (cases task)
  case (SendTask s t)
  then show ?thesis by (intro mirror_same [OF assms]) (simp_all add: run_task_def run_send_effect Let_def)
next
  case (CloseTask s)
  have "mirror (n\<lparr>posted := tasks\<rparr>)" using assms by (simp add: mirror_def)
  with CloseTask show ?thesis using mirror_close by (simp add: run_task_def)
qed

lemma mirror_accept:
  assumes ok: "net_ok n" and m: "mirror n" and d: "distinct_ids n" and op: "AsyncAccept \<in> set (pending (heap n s))"
  shows "mirror (snd (OnWebSocketAccept ops J s error r (finish_async s AsyncAccept n)))"
proof (cases error)
  case True
  then show ?thesis using mirror_Fail [OF mirror_finish [OF m]] by (simp add: OnWebSocketAccept_def)
next
  case False
  have "GetParticipantId (finish_async s AsyncAccept n) = (\<lambda>t. participant_id (heap n t))"
    by (auto simp: GetParticipantId_def)
  with False show ?thesis
    by (intro mirror_register [OF m ok d allocated [OF ok op control_op(2)]])
      (simp_all add: OnWebSocketAccept_def ReadNext_def Let_def)
qed

lemma mirror_write:
  assumes ok: "net_ok n" and m: "mirror n" and t: "first_write (pending (heap n s)) = Some t"
  shows "mirror (snd (on_write ops J s error r (complete_write s t error n)))"
proof (cases error)
  case True
  then show ?thesis
    using mirror_Fail [OF mirror_finish [OF m]] by (simp add: on_write_def complete_write_def Let_def)
next
  case False
  show ?thesis
    by (rule mirror_same [OF m])
      (simp_all add: on_write_effect [OF False in_flight(1) [OF net_ok_session [OF ok] t]] Let_def)
qed

lemma unallocated: "net_ok n \<Longrightarrow> \<not> registered (heap n (next_address n))"
  using net_ok_dormant [of n "next_address n"] by (simp add: dormant_def)

lemma event_mirror:
  assumes ok: "net_ok (net w)" and m: "mirror (net w)" and d: "distinct_ids (net w)"
    and ev: "handle_event ops J e w = Some (None, w')"
  shows "mirror (net w')"
  using ev
proof (cases rule: event_cases)
  case (task task tasks)
  then show ?thesis by (simp add: mirror_task [OF m])
next
  case (handshake s error)
  show ?thesis
    using mirror_Fail [OF mirror_finish [OF m]] mirror_same [OF m, of "net w'"]
    by (cases error) (simp_all add: handshake OnTlsHandshake_def AcceptWebSocket_def)
next
  case (accept s error)
  then show ?thesis by (simp add: mirror_accept [OF ok m d accept(2)])
next
  case (read s result draws)
  show ?thesis by (rule mirror_OnRead [OF mirror_finish [OF m] read(3)])
next
  case (written s error t)
  then show ?thesis by (simp add: mirror_write [OF ok m written(2)])
next
  case (closed s)
  then show ?thesis by (simp add: mirror_finish [OF m])
next
  case (opened s b)
  then show ?thesis by (intro mirror_same [OF m]) simp_all
next
  case (tcp ssl draw)
  with unallocated [OF ok] m show ?thesis
    by (auto simp: mirror_def open_session_def Let_def SslSession_Start_def PlainSession_Start_def
        AcceptWebSocket_def Session_new_def)
qed (use m in \<open>auto simp: mirror_def\<close>)

section \<open>Members of rooms are registered sessions\<close>

definition members_live :: "store \<Rightarrow> Net \<Rightarrow> bool" where
  "members_live m n \<longleftrightarrow>
     (\<forall>pid code. in_store pid code m \<longrightarrow> (\<exists>s. registered (heap n s) \<and> participant_id (heap n s) = pid))"

lemma members_live_mono:
  assumes "members_live m n" and "\<And>t. registered (heap n t) \<Longrightarrow> registered (heap n' t)"
    and "\<And>t. registered (heap n t) \<Longrightarrow> participant_id (heap n' t) = participant_id (heap n t)"
  shows "members_live m n'"
  using assms unfolding members_live_def by metis

lemma in_store_leave_all: "in_store pid code (store_leave_all q m) \<longleftrightarrow> pid \<noteq> q \<and> in_store pid code m"
  using store_leave_all_absent [of q code m] in_store_leave_all_other by (cases "pid = q") auto

lemma members_live_leave:
  assumes "members_live m n" and "\<And>t. t \<noteq> s \<Longrightarrow> registered (heap n t) \<Longrightarrow> registered (heap n' t)"
    and "\<And>t. participant_id (heap n' t) = participant_id (heap n t)"
  shows "members_live (store_leave_all (participant_id (heap n s)) m) n'"
  using assms unfolding members_live_def in_store_leave_all by metis

lemma store_dispatch_members:
  assumes "in_store pid code (snd (store_dispatch draws mt cmd m))"
  shows "in_store pid code m \<or> pid = command_sender cmd"
proof (cases cmd)
  case (CreateRoomCommand p password)
  with assms show ?thesis
    by (auto simp: in_store_def member_ids_def Let_def split: option.splits if_splits)
next
  case (JoinRoomCommand c p password)
  with assms show ?thesis
    by (auto simp: in_store_def member_ids_def store_join_def split: option.splits if_splits)
next
  case (LeaveRoomCommand c q)
  with assms show ?thesis
    by (auto simp: in_store_def member_ids_def store_leave_def split: option.splits if_splits)
qed (use assms in \<open>simp split: if_splits\<close>)

text \<open>An environment that reads no message from a session that has been taken out of the registry.\<close>

definition reads_while_registered :: "Event \<Rightarrow> 'r World \<Rightarrow> bool" where
  "reads_while_registered e w =
     (case e of
        ReadDone s (ReadMessage is_text t) draws \<Rightarrow> registered (heap (net w) s)
      | _ \<Rightarrow> True)"

section \<open>Who receives a message\<close>

text \<open>The sessions of a list of participants, without the one that is left out.\<close>

definition recipients :: "SessionRegistry \<Rightarrow> ParticipantId option \<Rightarrow> Participant list \<Rightarrow> address list" where
  "recipients reg left_out ps =
     concat (map (\<lambda>p. if left_out = Some (GetId p) then []
        else case map_of reg (GetId p) of None \<Rightarrow> [] | Some t \<Rightarrow> [t]) ps)"

lemma recipients_messages:
  "map (\<lambda>t. (t, u)) (recipients reg left_out ps) =
     concat (map (\<lambda>p. if left_out = Some (GetId p) then []
        else case map_of reg (GetId p) of None \<Rightarrow> [] | Some t \<Rightarrow> [(t, u)]) ps)"
  by (induction ps) (auto simp: recipients_def split: option.splits)

lemma event_messages_recipients:
  "event_messages reg (JoinedRoomEvent code p ps) u = map (\<lambda>t. (t, u)) (recipients reg (Some (GetId p)) ps)"
  "event_messages reg (LeftRoomEvent code pid ps) u = map (\<lambda>t. (t, u)) (recipients reg None ps)"
  by (auto simp: event_messages_def recipients_messages intro!: arg_cong [of _ _ concat])

lemma set_recipients:
  "t \<in> set (recipients reg left_out ps) \<longleftrightarrow>
     (\<exists>p \<in> set ps. left_out \<noteq> Some (GetId p) \<and> map_of reg (GetId p) = Some t)"
  by (induction ps) (auto simp: recipients_def split: option.splits)

section \<open>The server over a repository and a JSON library\<close>

locale buzzweb_server =
  room_service ops lookup invar + nlohmann_json J utf8 ok elements bool_of
  for ops :: "('r, UpdateCaptures) RoomRepository" and lookup :: "'r \<Rightarrow> store" and invar :: "'r \<Rightarrow> bool"
    and J :: "'j json_api" and utf8 :: "string \<Rightarrow> bool" and ok :: "'j \<Rightarrow> bool"
    and elements :: "'j \<Rightarrow> 'j list" and bool_of :: "'j \<Rightarrow> bool"
begin

lemma utf8_generated: "utf8 (GenerateRoomCode n)" "utf8 (GenerateParticipantId draw)"
  by (simp_all add: ascii_utf8 ascii_generated)

lemma RequiredString_utf8: "RequiredString J j k = Inr s \<Longrightarrow> ok j \<Longrightarrow> utf8 s"
  by (auto simp: RequiredString_def intro!: utf8_get ok_at split: if_splits)

lemma decode_ok:
  assumes "DecodeRequest J pid message = Inr req" and "utf8 pid"
  shows "command_ok J utf8 ok (command req) \<and> request_id_utf8 utf8 (request_id (meta req))"
  using assms(1)
proof (rule DecodeRequest_Inr)
  fix json mt
  assume j: "json_parse J message = Some json" "contains J json ''payload''"
      "is_object J (json_at J json ''payload'')"
    and rid: "meta req = mt\<lparr>request_id :=
       (if contains J json ''request_id'' \<and> is_string J (json_at J json ''request_id'')
        then Some (get_string J (json_at J json ''request_id'')) else None)\<rparr>"
    and cmd: "decode_command J pid (get_string J (json_at J json ''type'')) (meta req) (json_at J json ''payload'')
       = Inr (command req)"
  have json: "ok json" and payload: "ok (json_at J json ''payload'')"
    using j parse_ok ok_at by blast+
  have "request_id_utf8 utf8 (request_id (meta req))"
    using json by (auto simp: rid request_id_utf8_def intro!: utf8_get ok_at)
  moreover have "command_ok J utf8 ok (command req)"
    using cmd assms(2) payload j(3) RequiredString_utf8
    by (auto simp: decode_command_def andThen_Inr_iff participant_utf8_def dest!: sym [of _ "command req"]
        split: if_splits)
  ultimately show ?thesis by blast
qed

text \<open>No encoder throws on such results, so the callback does not either.\<close>

lemma DeliverEvents_quiet: "\<forall>e \<in> set evs. event_utf8 utf8 e \<Longrightarrow> fst (DeliverEvents J evs n) = None"
proof (induction evs arbitrary: n)
  case (Cons e evs)
  obtain t where "EncodeEvent J e = Inr t" using EncodeEvent_view [of e] Cons.prems by auto
  with Cons show ?case by simp
qed simp

lemma answer_quiet:
  assumes "response_utf8 utf8 (response res)" and "\<forall>e \<in> set (events res). event_utf8 utf8 e"
  shows "fst (answer J s res n) = None"
proof -
  obtain t where "EncodeResponse J (response res) = Inr t" using EncodeResponse_view [OF assms(1)] by metis
  with assms(2) show ?thesis by (simp add: answer_def DeliverEvents_quiet)
qed

lemma on_result_quiet:
  assumes "result_ok J utf8 ok res"
  shows "fst (on_result J s res n) = None"
proof (cases "\<exists>mt ty code sender target data.
    response res = SuccessResponse mt (SignalingResponse ty code sender target data)")
  case True
  then obtain mt ty code sender target data where
    r: "response res = SuccessResponse mt (SignalingResponse ty code sender target data)" by blast
  with assms have sig: "is_object J data" "ok data" "utf8 code" "utf8 sender" "utf8 target"
    and "request_id_utf8 utf8 (request_id mt)"
    by (simp_all add: result_ok_def)
  then have "response_utf8 utf8 (ErrorResponse mt ParticipantUnavailableResponse :: 'j ControlDispatcherResponse)"
    by simp
  then obtain t where "EncodeResponse J (ErrorResponse mt ParticipantUnavailableResponse) = Inr t"
    using EncodeResponse_view by metis
  moreover obtain u where "EncodeSignalingEvent J ty code sender target data = Inr u"
    using EncodeSignalingEvent_view [OF sig] by metis
  ultimately show ?thesis
    using r assms answer_quiet [of res s]
    by (auto simp: on_result_def result_ok_def split: option.splits)
next
  case False
  then have "on_result J s res n = answer J s res n"
    by (auto simp: on_result_def split: ControlDispatcherResponse.splits SuccessResponsePayload.splits)
  with assms show ?thesis by (simp add: answer_quiet result_ok_def)
qed

lemma protocol_error_quiet:
  assumes "ascii code" and "request_id_utf8 utf8 rid"
    and "\<And>m. mt = Some m \<Longrightarrow> request_id_utf8 utf8 (request_id m)"
  shows "fst (send_protocol_error J s mt code rid n) = None"
proof -
  obtain t where "EncodeProtocolError J mt code rid = Inr t"
    using EncodeProtocolError_view [OF assms] by metis
  then show ?thesis by (simp add: send_protocol_error_def)
qed

lemma DecodeRequest_error_utf8:
  assumes "DecodeRequest J pid message = Inl (ProtocolDecodeError mt code rid)"
  shows "request_id_utf8 utf8 rid \<and> (\<forall>m. mt = Some m \<longrightarrow> request_id_utf8 utf8 (request_id m))"
  using assms
proof (rule DecodeRequest_error_id)
  fix j
  assume j: "json_parse J message = Some j"
    and i: "\<And>i. rid = Some i \<or> (\<exists>m. mt = Some m \<and> request_id m = Some i) \<Longrightarrow>
       contains J j ''request_id'' \<and> is_string J (json_at J j ''request_id'')
       \<and> i = get_string J (json_at J j ''request_id'')"
  have "utf8 i" if "rid = Some i \<or> (\<exists>m. mt = Some m \<and> request_id m = Some i)" for i
    using i [OF that] parse_ok [OF j] utf8_get ok_at by blast
  then show ?thesis by (auto simp: request_id_utf8_def split: option.splits)
qed

definition repo_ok :: "'r \<Rightarrow> bool" where
  "repo_ok r \<longleftrightarrow> invar r \<and> store_wf (lookup r) \<and> no_empty_room (lookup r) \<and> store_utf8 utf8 (lookup r)"

lemma dispatch_ok:
  assumes "repo_ok r" and "DecodeRequest J pid message = Inr req" and "utf8 pid"
  obtains r' where "dispatch_switch ops draws req r =
      (Inr (fst (store_dispatch draws (meta req) (command req) (lookup r))), r')"
    "lookup r' = snd (store_dispatch draws (meta req) (command req) (lookup r))" "repo_ok r'"
    "result_ok J utf8 ok (fst (store_dispatch draws (meta req) (command req) (lookup r)))"
proof -
  note cmd = decode_ok [OF assms(2,3)]
  have shape: "command_matches (meta_type (meta req)) (command req)"
    using DecodeRequest_shape [OF assms(2)] by blast
  obtain res r' where sw: "dispatch_switch ops draws req r = (res, r')" by fastforce
  from assms(1) have inv: "invar r" "store_wf (lookup r)" "no_empty_room (lookup r)" "store_utf8 utf8 (lookup r)"
    by (simp_all add: repo_ok_def)
  note ref = dispatch_switch_refines [OF inv(1) shape, of draws, unfolded sw fst_conv snd_conv]
  note sd = store_dispatch_ok [OF inv(4) cmd [THEN conjunct1] cmd [THEN conjunct2] utf8_generated(1), of draws]
  have "repo_ok r'"
    using ref sd(2)
    by (simp add: repo_ok_def store_dispatch_keeps [OF inv(2)] store_dispatch_no_empty [OF inv(3)])
  with ref sw sd(1) show ?thesis by (intro that) simp_all
qed

lemma HandleMessage_request:
  assumes "repo_ok r" and "ascii (participant_id (heap n s))"
    and "DecodeRequest J (participant_id (heap n s)) message = Inr req"
  obtains r' where "HandleMessage ops J draws s message r n =
      (None, r', snd (on_result J s (fst (store_dispatch draws (meta req) (command req) (lookup r))) n))"
    "repo_ok r'" "lookup r' = snd (store_dispatch draws (meta req) (command req) (lookup r))"
    "result_ok J utf8 ok (fst (store_dispatch draws (meta req) (command req) (lookup r)))"
proof -
  let ?res = "fst (store_dispatch draws (meta req) (command req) (lookup r))"
  have "utf8 (participant_id (heap n s))" using assms(2) by (rule ascii_utf8)
  from dispatch_ok [OF assms(1,3) this, of draws] obtain r' where
    r': "dispatch_switch ops draws req r = (Inr ?res, r')" "repo_ok r'"
      "lookup r' = snd (store_dispatch draws (meta req) (command req) (lookup r))"
    and quiet: "result_ok J utf8 ok ?res"
    by metis
  obtain n' where "on_result J s ?res n = (None, n')"
    using on_result_quiet [OF quiet] by (metis prod.collapse)
  with r' assms(3) show ?thesis
    by (intro that [of r'] quiet) (simp_all add: HandleMessage_def Dispatch_def)
qed

text \<open>Every message is handled without an exception.\<close>

lemma HandleMessage_quiet:
  assumes "repo_ok r" and "ascii (participant_id (heap n s))"
  obtains r' n' where "HandleMessage ops J draws s message r n = (None, r', n')" "repo_ok r'"
    "case DecodeRequest J (participant_id (heap n s)) message of
       Inl e \<Rightarrow> r' = r
     | Inr req \<Rightarrow> lookup r' = snd (store_dispatch draws (meta req) (command req) (lookup r))"
proof (cases "DecodeRequest J (participant_id (heap n s)) message")
  case (Inr req)
  show ?thesis
    by (rule HandleMessage_request [OF assms Inr, of draws]) (rule that, simp_all add: Inr)
next
  case (Inl e)
  have "ascii ''invalid_message''" "ascii ''missing_field''" "ascii ''invalid_field''"
    by (simp_all add: ascii_def)
  with DecodeRequest_classified [OF Inl] consider "e = parse_error" | "e = other_decode_exn json_out_of_range"
    | mt code rid where "e = ProtocolDecodeError mt code rid" "ascii code" by blast
  then show ?thesis
  proof cases
    case 1
    have "fst (send_protocol_error J s None ''invalid_json'' None n) = None"
      by (rule protocol_error_quiet) (simp_all add: ascii_def request_id_utf8_def)
    then obtain n' where "send_protocol_error J s None ''invalid_json'' None n = (None, n')"
      by (metis prod.collapse)
    with 1 Inl assms(1) show ?thesis by (intro that [of r n']) (simp_all add: HandleMessage_def)
  next
    case 2
    have "fst (send_protocol_error J s None ''invalid_message'' None n) = None"
      by (rule protocol_error_quiet) (simp_all add: ascii_def request_id_utf8_def)
    then obtain n' where "send_protocol_error J s None ''invalid_message'' None n = (None, n')"
      by (metis prod.collapse)
    with 2 Inl assms(1) show ?thesis
      by (intro that [of r n']) (simp_all add: HandleMessage_def json_out_of_range_def)
  next
    case 3
    have rid: "request_id_utf8 utf8 rid" "\<And>m. mt = Some m \<Longrightarrow> request_id_utf8 utf8 (request_id m)"
      using DecodeRequest_error_utf8 [OF Inl [unfolded 3(1)]] by auto
    have "fst (send_protocol_error J s mt code rid n) = None"
      by (rule protocol_error_quiet [OF 3(2) rid])
    then obtain n' where "send_protocol_error J s mt code rid n = (None, n')"
      by (metis prod.collapse)
    with 3 Inl assms(1) show ?thesis by (intro that [of r n']) (simp_all add: HandleMessage_def)
  qed
qed

text \<open>Disconnecting takes the participant out of every room.\<close>

lemma RemoveFromRegistry_repo:
  assumes "repo_ok r"
  shows "repo_ok (fst (RemoveFromRegistry ops J s r n))"
    and "lookup (fst (RemoveFromRegistry ops J s r n)) =
      (if registered (heap n s) then store_leave_all (participant_id (heap n s)) (lookup r) else lookup r)"
proof -
  let ?pid = "participant_id (heap n s)"
  from assms have inv: "invar r" "store_wf (lookup r)" "no_empty_room (lookup r)" "store_utf8 utf8 (lookup r)"
    by (simp_all add: repo_ok_def)
  obtain res r' where d: "HandleParticipantDisconnected ops ?pid r = (res, r')" by fastforce
  have r': "lookup r' = store_leave_all ?pid (lookup r)" "invar r'"
    using Disconnected_refines [OF inv(1), of ?pid] d by (metis snd_conv)+
  have ok: "repo_ok r'"
    using r' inv by (simp add: repo_ok_def store_leave_all_keeps store_utf8_leave_all)
  show "repo_ok (fst (RemoveFromRegistry ops J s r n))"
    using assms ok by (auto simp: RemoveFromRegistry_def Let_def d split: sum.splits)
  show "lookup (fst (RemoveFromRegistry ops J s r n)) =
      (if registered (heap n s) then store_leave_all ?pid (lookup r) else lookup r)"
    using r' by (auto simp: RemoveFromRegistry_def Let_def d split: sum.splits)
qed

lemma Fail_repo:
  "fst (Fail ops J s r n) = fst (RemoveFromRegistry ops J s r (modify s (\<lambda>x. x\<lparr>closing := True\<rparr>) n))"
  by (simp add: Fail_def Let_def case_prod_beta)

lemma run_close_repo:
  "fst (run_close ops J s r n) =
     (if closing (heap n s) then r
      else fst (RemoveFromRegistry ops J s r (modify s (\<lambda>x. x\<lparr>closing := True\<rparr>) n)))"
  by (simp add: run_close_def Let_def case_prod_beta)

lemma OnRead_quiet:
  assumes "repo_ok r" and "ascii (participant_id (heap n s))"
  obtains r' n' where "OnRead ops J draws s result r n = (None, r', n')" "repo_ok r'"
proof (cases result)
  case ReadClosed
  with RemoveFromRegistry_repo(1) [OF assms(1), of s n] show ?thesis
    by (intro that [of "fst (RemoveFromRegistry ops J s r n)" "snd (RemoveFromRegistry ops J s r n)"])
      (simp_all add: OnRead_def case_prod_beta)
next
  case ReadError
  have "repo_ok (fst (Fail ops J s r n))"
    unfolding Fail_repo by (rule RemoveFromRegistry_repo(1) [OF assms(1)])
  with ReadError show ?thesis
    by (intro that [of "fst (Fail ops J s r n)" "snd (Fail ops J s r n)"])
      (simp_all add: OnRead_def case_prod_beta)
next
  case (ReadMessage is_text t)
  show ?thesis
  proof (cases is_text)
    case True
    obtain r' n' where "HandleMessage ops J draws s t r n = (None, r', n')" "repo_ok r'"
      using HandleMessage_quiet [OF assms] by metis
    with True ReadMessage show ?thesis by (intro that [of r' "ReadNext s n'"]) (simp_all add: OnRead_def)
  next
    case False
    have "ascii ''invalid_message''" by (simp add: ascii_def)
    from EncodeProtocolError_view [OF this, of None None]
    obtain u where "InvalidMessageError J = Inr u"
      by (auto simp: InvalidMessageError_def request_id_utf8_def)
    with False ReadMessage assms(1) show ?thesis
      by (intro that [of r "ReadNext s (Send s u n)"]) (simp_all add: OnRead_def)
  qed
qed

definition world_ok :: "'r World \<Rightarrow> bool" where
  "world_ok w \<longleftrightarrow> repo_ok (repository w) \<and> (\<forall>s. ascii (participant_id (heap (net w) s)))"

lemma on_net_quiet:
  assumes "repo_ok (fst (f (repository w) (net w)))"
  shows "fst (on_net f w) = None" and "repo_ok (repository (snd (on_net f w)))"
  using assms by (simp_all add: on_net_def case_prod_beta)

lemma handlers_repo:
  assumes "repo_ok r"
  shows "repo_ok (fst (Fail ops J s r n))" and "repo_ok (fst (run_task ops J task r n))"
    and "repo_ok (fst (OnTlsHandshake ops J s error r n))"
    and "repo_ok (fst (OnWebSocketAccept ops J s error r n))"
    and "repo_ok (fst (on_write ops J s error r n))"
  using assms RemoveFromRegistry_repo(1) [OF assms]
  by (auto simp: Fail_repo run_task_def run_close_repo OnTlsHandshake_def OnWebSocketAccept_def on_write_def Let_def
      split: Task.splits)

lemma event_quiet:
  assumes w: "world_ok w" and ev: "handle_event ops J e w = Some (out, w')"
  shows "out = None \<and> world_ok w'"
proof -
  have r: "repo_ok (repository w)" using w by (simp add: world_ok_def)
  have *: "out = None \<and> repo_ok (repository w')"
  proof (cases "\<exists>s result draws. e = ReadDone s result draws")
    case True
    then obtain s result draws where e: "e = ReadDone s result draws" by blast
    have "ascii (participant_id (heap (finish_async s AsyncRead (net w)) s))"
      using w by (simp add: world_ok_def)
    from OnRead_quiet [OF r this, of draws result] obtain r' n' where
      "OnRead ops J draws s result (repository w) (finish_async s AsyncRead (net w)) = (None, r', n')" "repo_ok r'"
      by metis
    with ev e show ?thesis by (auto simp: handle_event_def Let_def split: if_splits)
  next
    case False
    with ev r handlers_repo [OF r] show ?thesis
      by (cases e) (auto simp: handle_event_def on_net_def Let_def case_prod_beta
          split: if_splits list.splits option.splits)
  qed
  with ev have "handle_event ops J e w = Some (None, w')" by simp
  from event_ids [OF this] have "ascii (participant_id (heap (net w') s))" for s
    using w ascii_generated(2) unfolding world_ok_def by metis
  with * show ?thesis by (simp add: world_ok_def)
qed

lemma reachable_world_ok:
  "reachable ops J env w0 w \<Longrightarrow> world_ok w0 \<Longrightarrow> world_ok w"
  by (induction rule: reachable.induct) (use event_quiet in blast)+

lemma world_ok_Run: "repo_ok r \<Longrightarrow> world_ok (Server_Run l r)"
  using ascii_generated(2) by (simp add: world_ok_def Server_Run_def net_start_def Session_new_def)

lemma RemoveFromRegistry_members:
  assumes "repo_ok r" and "members_live (lookup r) n"
  shows "members_live (lookup (fst (RemoveFromRegistry ops J s r n))) (snd (RemoveFromRegistry ops J s r n))"
proof (cases "registered (heap n s)")
  case True
  then have "lookup (fst (RemoveFromRegistry ops J s r n)) = store_leave_all (participant_id (heap n s)) (lookup r)"
    using RemoveFromRegistry_repo(2) [OF assms(1), of s n] by simp
  moreover have "members_live (store_leave_all (participant_id (heap n s)) (lookup r)) (snd (RemoveFromRegistry ops J s r n))"
    by (rule members_live_leave [OF assms(2)]) simp_all
  ultimately show ?thesis by simp
next
  case False
  then show ?thesis using assms(2) by (simp add: RemoveFromRegistry_def)
qed

lemma Fail_members:
  assumes "repo_ok r" and "members_live (lookup r) n"
  shows "members_live (lookup (fst (Fail ops J s r n))) (snd (Fail ops J s r n))"
proof -
  let ?n = "modify s (\<lambda>x. x\<lparr>closing := True\<rparr>) n"
  have "members_live (lookup r) ?n" by (rule members_live_mono [OF assms(2)]) auto
  from RemoveFromRegistry_members [OF assms(1) this, of s]
  have "members_live (lookup (fst (Fail ops J s r n))) (snd (RemoveFromRegistry ops J s r ?n))"
    by (simp add: Fail_repo)
  then show ?thesis
    by (rule members_live_mono) (auto simp: failed_def split: if_splits)
qed

lemma run_close_members:
  assumes "repo_ok r" and "members_live (lookup r) n"
  shows "members_live (lookup (fst (run_close ops J s r n))) (snd (run_close ops J s r n))"
proof (cases "closing (heap n s)")
  case False
  let ?n = "modify s (\<lambda>x. x\<lparr>closing := True\<rparr>) n"
  have "members_live (lookup r) ?n" by (rule members_live_mono [OF assms(2)]) auto
  from RemoveFromRegistry_members [OF assms(1) this, of s]
  have "members_live (lookup (fst (run_close ops J s r n))) (snd (RemoveFromRegistry ops J s r ?n))"
    using False by (simp add: run_close_repo)
  then show ?thesis
    by (rule members_live_mono) (use False in \<open>auto simp: run_close_effect split: if_splits\<close>)
qed (use assms in \<open>simp add: run_close_def\<close>)

lemma HandleMessage_members:
  assumes "repo_ok r" and "members_live (lookup r) n" and "registered (heap n s)"
    and "ascii (participant_id (heap n s))"
    and run: "HandleMessage ops J draws s message r n = (None, r', n')"
  shows "members_live (lookup r') n'"
proof -
  have spec: "case DecodeRequest J (participant_id (heap n s)) message of
       Inl e \<Rightarrow> r' = r
     | Inr req \<Rightarrow> lookup r' = snd (store_dispatch draws (meta req) (command req) (lookup r))"
    by (rule HandleMessage_quiet [OF assms(1,4), of draws message]) (use run in simp)
  have "in_store pid code (lookup r) \<or> pid = participant_id (heap n s)" if "in_store pid code (lookup r')" for pid code
  proof (cases "DecodeRequest J (participant_id (heap n s)) message")
    case (Inr req)
    with that spec have "in_store pid code (snd (store_dispatch draws (meta req) (command req) (lookup r)))" by simp
    from store_dispatch_members [OF this] DecodeRequest_shape [OF Inr] show ?thesis by simp
  qed (use that spec in simp)
  then have "members_live (lookup r') n"
    using assms(2,3) unfolding members_live_def by blast
  then show ?thesis
    by (rule members_live_mono) (simp_all add: HandleMessage_result [OF run])
qed

lemma OnRead_members:
  assumes "repo_ok r" and "members_live (lookup r) n" and "ascii (participant_id (heap n s))"
    and "case result of ReadMessage _ _ \<Rightarrow> registered (heap n s) | _ \<Rightarrow> True"
    and run: "OnRead ops J draws s result r n = (None, r', n')"
  shows "members_live (lookup r') n'"
proof (cases result)
  case ReadClosed
  with run RemoveFromRegistry_members [OF assms(1,2), of s] show ?thesis
    by (auto simp: OnRead_def split: prod.splits)
next
  case ReadError
  with run Fail_members [OF assms(1,2), of s] show ?thesis by (auto simp: OnRead_def split: prod.splits)
next
  case (ReadMessage is_text t)
  show ?thesis
  proof (cases is_text)
    case True
    with ReadMessage run obtain n1 where h: "HandleMessage ops J draws s t r n = (None, r', n1)" "n' = ReadNext s n1"
      by (auto simp: OnRead_def split: prod.splits option.splits)
    have "members_live (lookup r') n1"
      using assms(4) ReadMessage by (intro HandleMessage_members [OF assms(1,2) _ assms(3) h(1)]) simp
    then show ?thesis unfolding h(2) by (rule members_live_mono) (auto simp: ReadNext_def)
  next
    case False
    with ReadMessage run obtain u where "r' = r" "n' = ReadNext s (Send s u n)"
      by (auto simp: OnRead_def split: sum.splits)
    then show ?thesis using assms(2) by (auto simp: ReadNext_def elim!: members_live_mono)
  qed
qed

lemma finish_members: "members_live m n \<Longrightarrow> members_live m (finish_async s op n)"
  by (erule members_live_mono) auto

lemma run_task_members:
  assumes "repo_ok r" and m: "members_live (lookup r) n"
  shows "members_live (lookup (fst (run_task ops J task r (n\<lparr>posted := tasks\<rparr>))))
    (snd (run_task ops J task r (n\<lparr>posted := tasks\<rparr>)))"
proof (cases task)
  case (SendTask s t)
  have "members_live (lookup r) (run_send s t (n\<lparr>posted := tasks\<rparr>))"
    by (rule members_live_mono [OF m]) (auto simp: run_send_effect Let_def)
  with SendTask show ?thesis by (simp add: run_task_def)
next
  case (CloseTask s)
  have "members_live (lookup r) (n\<lparr>posted := tasks\<rparr>)" by (rule members_live_mono [OF m]) auto
  from run_close_members [OF assms(1) this, of s] CloseTask show ?thesis by (simp add: run_task_def)
qed

lemma handshake_members:
  assumes "repo_ok r" and m: "members_live (lookup r) n"
  shows "members_live (lookup (fst (OnTlsHandshake ops J s error r n))) (snd (OnTlsHandshake ops J s error r n))"
proof -
  have "members_live (lookup r) (AcceptWebSocket s n)"
    by (rule members_live_mono [OF m]) (auto simp: AcceptWebSocket_def)
  then show ?thesis using Fail_members [OF assms] by (cases error) (simp_all add: OnTlsHandshake_def)
qed

lemma accept_members:
  assumes "repo_ok r" and m: "members_live (lookup r) n"
  shows "members_live (lookup (fst (OnWebSocketAccept ops J s error r n))) (snd (OnWebSocketAccept ops J s error r n))"
proof (cases error)
  case True
  then show ?thesis using Fail_members [OF assms] by (simp add: OnWebSocketAccept_def)
next
  case False
  then have "members_live (lookup r) (snd (OnWebSocketAccept ops J s error r n))"
    by (intro members_live_mono [OF m]) (auto simp: OnWebSocketAccept_def ReadNext_def Let_def)
  with False show ?thesis by (simp add: OnWebSocketAccept_def Let_def)
qed

lemma write_members:
  assumes r: "repo_ok r" and m: "members_live (lookup r) n" and ok: "net_ok n"
    and t: "first_write (pending (heap n s)) = Some t"
  shows "members_live (lookup (fst (on_write ops J s error r (complete_write s t error n))))
    (snd (on_write ops J s error r (complete_write s t error n)))"
proof (cases error)
  case True
  then show ?thesis
    using Fail_members [OF r finish_members [OF m]] by (simp add: on_write_def complete_write_def Let_def)
next
  case False
  have "members_live (lookup r) (snd (on_write ops J s error r (complete_write s t error n)))"
    by (rule members_live_mono [OF m])
      (auto simp: on_write_effect [OF False in_flight(1) [OF net_ok_session [OF ok] t]] Let_def)
  with False show ?thesis by (simp add: on_write_def Let_def)
qed

lemma open_session_members:
  assumes "net_ok n" and "members_live m n"
  shows "members_live m (open_session ssl draw n)"
  using unallocated [OF assms(1)]
  by (intro members_live_mono [OF assms(2)])
    (auto simp: open_session_def Let_def SslSession_Start_def PlainSession_Start_def AcceptWebSocket_def)

lemma event_members:
  assumes w: "world_ok w" "net_ok (net w)" and m: "members_live (lookup (repository w)) (net w)"
    and env: "reads_while_registered e w" and ev: "handle_event ops J e w = Some (None, w')"
  shows "members_live (lookup (repository w')) (net w')"
proof -
  have r: "repo_ok (repository w)" using w by (simp add: world_ok_def)
  note fin = finish_members [OF m]
  show ?thesis
    using ev
  proof (cases rule: event_cases)
    case (task task tasks)
    then show ?thesis using run_task_members [OF r m] by simp
  next
    case (handshake s error)
    then show ?thesis using handshake_members [OF r fin] by simp
  next
    case (accept s error)
    then show ?thesis using accept_members [OF r fin] by simp
  next
    case (read s result draws)
    then show ?thesis
      using env w
      by (intro OnRead_members [OF r fin _ _ read(3)])
        (auto simp: reads_while_registered_def world_ok_def split: ReadResult.splits)
  next
    case (written s error t)
    then show ?thesis using write_members [OF r m w(2)] by simp
  next
    case (tcp ssl draw)
    then show ?thesis using open_session_members [OF w(2) m] by simp
  next
    case (closed s)
    then show ?thesis using fin by simp
  qed (use m in \<open>auto elim!: members_live_mono\<close>)
qed

subsection \<open>What a message posts\<close>

lemma DeliverEvents_posts:
  "\<forall>e \<in> set evs. event_utf8 utf8 e \<Longrightarrow>
     DeliverEvents J evs n = (None, post_all (snd (events_messages J (registry n) evs)) n)"
  using DeliverEvents_quiet [of evs n] DeliverEvents_messages [of J evs n] by simp

lemma answer_posts:
  assumes "response_utf8 utf8 (response res)" and "\<forall>e \<in> set (events res). event_utf8 utf8 e"
    and "EncodeResponse J (response res) = Inr t"
  shows "answer J s res n = (None, post_all ((s, t) # snd (events_messages J (registry n) (events res))) n)"
  using assms by (simp add: answer_def DeliverEvents_posts Send_post)

lemma on_result_plain:
  assumes "result_ok J utf8 ok res"
    and "\<And>mt ty code sender target data. response res \<noteq> SuccessResponse mt (SignalingResponse ty code sender target data)"
    and "EncodeResponse J (response res) = Inr t"
  shows "on_result J s res n = (None, post_all ((s, t) # snd (events_messages J (registry n) (events res))) n)"
proof -
  have "on_result J s res n = answer J s res n"
    using assms(2)
    by (auto simp: on_result_def split: ControlDispatcherResponse.splits SuccessResponsePayload.splits)
  then show ?thesis using assms by (simp add: answer_posts result_ok_def)
qed

lemma EncodeResponse_answers:
  assumes "response_utf8 utf8 resp"
  obtains t where "EncodeResponse J resp = Inr t" "answers J elements bool_of t resp"
proof (rule EncodeResponse_view [OF assms])
  fix t j
  assume "EncodeResponse J resp = Inr t" "json_parse J t = Some j"
    "answer_view J bool_of j (ResultType (response_meta resp)) (is_success resp) (request_id (response_meta resp))"
    "\<And>m p. resp = SuccessResponse m p \<Longrightarrow> payload_view J elements p (json_at J j ''payload'')"
    "\<And>m e. resp = ErrorResponse m e \<Longrightarrow> error_view J (ErrorCode e) (json_at J j ''error'')"
  then show ?thesis
    by (intro that [of t]) (auto simp: answers_def split: ControlDispatcherResponse.splits)
qed

lemma error_result_posts:
  assumes "result_ok J utf8 ok (error_result mt e)"
  obtains t where "on_result J s (error_result mt e) n = (None, post_all [(s, t)] n)"
    "answers J elements bool_of t (ErrorResponse mt e)"
proof -
  have "response_utf8 utf8 (ErrorResponse mt e :: 'j ControlDispatcherResponse)"
    using assms by (simp add: result_ok_def)
  then obtain t where t: "EncodeResponse J (ErrorResponse mt e) = Inr t" "answers J elements bool_of t (ErrorResponse mt e)"
    using EncodeResponse_answers by blast
  have "on_result J s (error_result mt e) n = (None, post_all [(s, t)] n)"
    using on_result_plain [OF assms, of t s n] t(1) by simp
  then show ?thesis using that t(2) by blast
qed

lemma success_result_posts:
  assumes "result_ok J utf8 ok (success_result mt p [event])"
    and "\<And>ty code sender target data. p \<noteq> SignalingResponse ty code sender target data"
  obtains t u where "on_result J s (success_result mt p [event]) n =
      (None, post_all ((s, t) # event_messages (registry n) event u) n)"
    "answers J elements bool_of t (SuccessResponse mt p)" "EncodeEvent J event = Inr u"
proof -
  have resp: "response_utf8 utf8 (SuccessResponse mt p)" and ev: "event_utf8 utf8 event"
    using assms by (simp_all add: result_ok_def)
  obtain t where t: "EncodeResponse J (SuccessResponse mt p) = Inr t" "answers J elements bool_of t (SuccessResponse mt p)"
    using EncodeResponse_answers [OF resp] by blast
  obtain u where u: "EncodeEvent J event = Inr u" using EncodeEvent_view [OF ev] by metis
  have "on_result J s (success_result mt p [event]) n =
      (None, post_all ((s, t) # event_messages (registry n) event u) n)"
    using on_result_plain [OF assms(1), of t s n] assms(2) t(1) u by simp
  then show ?thesis using that t(2) u by blast
qed

lemma success_result_answered:
  assumes "result_ok J utf8 ok (success_result mt p [])"
    and "\<And>ty code sender target data. p \<noteq> SignalingResponse ty code sender target data"
  obtains t where "on_result J s (success_result mt p []) n = (None, post_all [(s, t)] n)"
    "answers J elements bool_of t (SuccessResponse mt p)"
proof -
  have "response_utf8 utf8 (SuccessResponse mt p)" using assms by (simp add: result_ok_def)
  then obtain t where t: "EncodeResponse J (SuccessResponse mt p) = Inr t" "answers J elements bool_of t (SuccessResponse mt p)"
    using EncodeResponse_answers by blast
  have "on_result J s (success_result mt p []) n = (None, post_all [(s, t)] n)"
    using on_result_plain [OF assms(1), of t s n] assms(2) t(1) by simp
  then show ?thesis using that t(2) by blast
qed

lemma signaling_result_posts:
  assumes "result_ok J utf8 ok (success_result mt (SignalingResponse ty code sender target data) [])"
  shows "case map_of (registry n) target of
      None \<Rightarrow> \<exists>t. on_result J s (success_result mt (SignalingResponse ty code sender target data) []) n
          = (None, post_all [(s, t)] n)
        \<and> answers J elements bool_of t (ErrorResponse mt ParticipantUnavailableResponse)
    | Some a \<Rightarrow> \<exists>t u. on_result J s (success_result mt (SignalingResponse ty code sender target data) []) n
          = (None, post_all [(a, u), (s, t)] n)
        \<and> answers J elements bool_of t (SuccessResponse mt (SignalingResponse ty code sender target data))
        \<and> EncodeSignalingEvent J ty code sender target data = Inr u"
proof (cases "map_of (registry n) target")
  case None
  have "response_utf8 utf8 (ErrorResponse mt ParticipantUnavailableResponse :: 'j ControlDispatcherResponse)"
    using assms by (simp add: result_ok_def)
  then obtain t where "EncodeResponse J (ErrorResponse mt ParticipantUnavailableResponse) = Inr t"
    "answers J elements bool_of t (ErrorResponse mt ParticipantUnavailableResponse)"
    using EncodeResponse_answers by blast
  with None show ?thesis by (auto simp: on_result_def Send_post)
next
  case (Some a)
  let ?res = "success_result mt (SignalingResponse ty code sender target data) []"
  have resp: "response_utf8 utf8 (SuccessResponse mt (SignalingResponse ty code sender target data))"
    and sig: "is_object J data" "ok data" "utf8 code" "utf8 sender" "utf8 target"
    using assms by (simp_all add: result_ok_def)
  obtain t where t: "EncodeResponse J (SuccessResponse mt (SignalingResponse ty code sender target data)) = Inr t"
    "answers J elements bool_of t (SuccessResponse mt (SignalingResponse ty code sender target data))"
    using EncodeResponse_answers [OF resp] by blast
  obtain u where u: "EncodeSignalingEvent J ty code sender target data = Inr u"
    using EncodeSignalingEvent_view [OF sig] by metis
  have "answer J s ?res n' = (None, post_all [(s, t)] n')" for n'
    using answer_posts [of ?res t s n'] resp t(1) by simp
  with Some t u show ?thesis by (auto simp: on_result_def Send_post)
qed

text \<open>One answer, after the relayed message and before the events.\<close>

lemma on_result_one_answer:
  assumes "result_ok J utf8 ok res"
    and "\<forall>mt ty code sender target data.
      response res = SuccessResponse mt (SignalingResponse ty code sender target data) \<longrightarrow> events res = []"
  obtains relay t evs resp where "on_result J s res n = (None, post_all (relay @ (s, t) # evs) n)"
    "answers J elements bool_of t resp" "response_meta resp = response_meta (response res)" "length relay \<le> 1"
    "\<And>m. m \<in> set relay \<Longrightarrow> \<exists>ty code sender target data. map_of (registry n) target = Some (fst m)
       \<and> EncodeSignalingEvent J ty code sender target data = Inr (snd m)"
    "\<And>m. m \<in> set evs \<Longrightarrow> \<exists>event \<in> set (events res). EncodeEvent J event = Inr (snd m)"
proof (cases "\<exists>mt ty code sender target data.
    response res = SuccessResponse mt (SignalingResponse ty code sender target data)")
  case True
  then obtain mt ty code sender target data where
    r: "response res = SuccessResponse mt (SignalingResponse ty code sender target data)" by blast
  with assms(2) have res: "res = success_result mt (SignalingResponse ty code sender target data) []"
    by (cases res) (simp add: success_result_def)
  note post = signaling_result_posts [OF assms(1) [unfolded res], where n = n and s = s]
  show ?thesis
  proof (cases "map_of (registry n) target")
    case None
    with post obtain t where "on_result J s res n = (None, post_all ([] @ [(s, t)]) n)"
      "answers J elements bool_of t (ErrorResponse mt ParticipantUnavailableResponse)"
      by (auto simp: res)
    then show ?thesis by (rule that) (simp_all add: r)
  next
    case (Some a)
    with post obtain t u where sent: "on_result J s res n = (None, post_all ([(a, u)] @ [(s, t)]) n)"
      "answers J elements bool_of t (SuccessResponse mt (SignalingResponse ty code sender target data))"
      and u: "EncodeSignalingEvent J ty code sender target data = Inr u"
      by (auto simp: res)
    have "\<exists>ty code sender target data. map_of (registry n) target = Some a
        \<and> EncodeSignalingEvent J ty code sender target data = Inr u"
      using Some u by blast
    then show ?thesis by (intro that [OF sent]) (simp_all add: r)
  qed
next
  case False
  have "response_utf8 utf8 (response res)" using assms(1) by (simp add: result_ok_def)
  then obtain t where t: "EncodeResponse J (response res) = Inr t" "answers J elements bool_of t (response res)"
    using EncodeResponse_answers by blast
  have "on_result J s res n = (None, post_all ([] @ (s, t) # snd (events_messages J (registry n) (events res))) n)"
    using on_result_plain [OF assms(1) _ t(1)] False by simp
  then show ?thesis
    by (rule that [OF _ t(2)]) (simp_all add: events_messages_encoded)
qed

end

lemma distinct_ids_back:
  assumes ev: "handle_event ops J e w = Some (None, w')" and d: "distinct_ids (net w')"
  shows "distinct_ids (net w)"
proof -
  have "participant_id (heap (net w') s) = participant_id (heap (net w) s)" if "s < next_address (net w)" for s
    using event_ids [OF ev, of s] that by auto
  then show ?thesis
    using d event_next_address [OF ev] unfolding distinct_ids_def by (metis less_le_trans)
qed

lemma reachable_mirror:
  "reachable ops J env (Server_Run l r) w \<Longrightarrow> distinct_ids (net w) \<Longrightarrow> mirror (net w)"
proof (induction rule: reachable.induct)
  case start
  show ?case
    by (simp add: mirror_def Server_Run_def net_start_def SessionRegistry_new_def Session_new_def)
next
  case (event w e w')
  then show ?case
    using event_mirror reachable_net_ok [OF event.hyps(1) Server_Run_ok] distinct_ids_back by metis
qed

section \<open>The server of main\<close>

text \<open>
  \<^verbatim>\<open>main\<close> runs the server on the in-memory repository; the JSON library stays a parameter. The
  state of the repository that the proofs rely on:
\<close>

definition memory_ok :: "(string \<Rightarrow> bool) \<Rightarrow> InMemoryRoomRepository \<Rightarrow> bool" where
  "memory_ok utf8 r \<longleftrightarrow> InMemory_invar r \<and> store_wf (InMemory_lookup r) \<and> no_empty_room (InMemory_lookup r)
     \<and> store_utf8 utf8 (InMemory_lookup r)"

lemma memory_ok_new: "memory_ok utf8 InMemory_new"
  by (simp add: memory_ok_def)

lemma memory_server:
  assumes "nlohmann_json J utf8 ok elements bool_of"
  shows "buzzweb_server (mem_ops ord) InMemory_lookup InMemory_invar J utf8 ok elements bool_of"
  using service.room_service_axioms assms by (rule buzzweb_server.intro)

lemma memory_repo_ok:
  assumes "nlohmann_json J utf8 ok elements bool_of"
  shows "buzzweb_server.repo_ok InMemory_lookup InMemory_invar utf8 r \<longleftrightarrow> memory_ok utf8 r"
  by (simp add: buzzweb_server.repo_ok_def [OF memory_server [OF assms]] memory_ok_def)

interpretation server: buzzweb_server "mem_ops ord" InMemory_lookup InMemory_invar text_api valid_utf8 ok_json
    elements_of bool_value for ord
  by (rule memory_server [OF text_json.nlohmann_json_axioms])

section \<open>An example: creating a room\<close>

definition demo_create_request :: "ParticipantId \<Rightarrow> json ControlDispatcherRequest" where
  "demo_create_request pid =
     \<lparr>meta = \<lparr>meta_type = CreateRoom, request_id = None, signaling_type = None\<rparr>,
      command = CreateRoomCommand \<lparr>GetId = pid, GetName = ''Ann''\<rparr> None\<rparr>"

definition demo_create_text :: string where
  "demo_create_text = print_json (JObj [(''type'', JStr ''create_room''),
     (''payload'', JObj [(''display_name'', JStr ''Ann'')])])"

lemma demo_create_decodes: "DecodeRequest text_api pid demo_create_text = Inr (demo_create_request pid)"
proof (rule text_json.Decode_request_json)
  show "request_wf text_api pid (demo_create_request pid)"
    by (simp add: request_wf_def demo_create_request_def)
  have "request_json text_api (demo_create_request pid) =
      JObj [(''type'', JStr ''create_room''), (''payload'', JObj [(''display_name'', JStr ''Ann'')])]"
    by (simp add: request_json_def demo_create_request_def request_name_def optional_field_def object_of_def
        umap_assign_def)
  then show "json_parse text_api demo_create_text = Some (request_json text_api (demo_create_request pid))"
    unfolding demo_create_text_def text_api_sel
    by (simp only:) (rule parse_print, simp add: byte_in_def)
qed

lemma demo_created:
  assumes r: "memory_ok valid_utf8 (repository w)" and "ascii (participant_id (heap (net w) s))"
    and op: "\<not> stopped w" "AsyncRead \<in> set (pending (heap (net w) s))"
    and fresh: "InMemory_lookup (repository w) = Map.empty"
  obtains w' where "handle_event (mem_ops ord) text_api (ReadDone s (ReadMessage True demo_create_text) (\<lambda>i. i)) w
      = Some (None, w')"
    "in_store (participant_id (heap (net w) s)) (GenerateRoomCode 0) (InMemory_lookup (repository w'))"
    "registry (net w') = registry (net w)" "\<not> stopped w'"
    "heap (net w') = (heap (net w))(s := (heap (net w) s)\<lparr>pending := remove1 AsyncRead (pending (heap (net w) s)) @ [AsyncRead]\<rparr>)"
proof -
  let ?n = "finish_async s AsyncRead (net w)" and ?pid = "participant_id (heap (net w) s)"
  have repo: "buzzweb_server.repo_ok InMemory_lookup InMemory_invar valid_utf8 (repository w)"
    using r by (simp add: memory_repo_ok [OF text_json.nlohmann_json_axioms])
  have pid: "ascii (participant_id (heap ?n s))" using assms(2) by simp
  have dec: "DecodeRequest text_api (participant_id (heap ?n s)) demo_create_text = Inr (demo_create_request ?pid)"
    by (simp add: demo_create_decodes)
  have attempts: "[0..<max_attempts] = 0 # [1..<max_attempts]"
    by (simp add: max_attempts_def upt_conv_Cons)
  obtain r' n' where h: "HandleMessage (mem_ops ord) text_api (\<lambda>i. i) s demo_create_text (repository w) ?n = (None, r', n')"
    and r': "InMemory_lookup r' = snd (store_dispatch (\<lambda>i. i) (meta (demo_create_request ?pid))
      (command (demo_create_request ?pid)) (InMemory_lookup (repository w)))"
    using server.HandleMessage_request [OF repo pid dec] by metis
  have "in_store ?pid (GenerateRoomCode 0) (InMemory_lookup r')"
    using fresh by (simp add: r' demo_create_request_def attempts Let_def in_store_def member_ids_def)
  moreover have "OnRead (mem_ops ord) text_api (\<lambda>i. i) s (ReadMessage True demo_create_text) (repository w) ?n
      = (None, r', ReadNext s n')"
    by (simp add: OnRead_def h)
  note ev = read_event [OF op this]
  ultimately show ?thesis
    using op HandleMessage_result [OF h] by (intro that [OF ev]) (simp_all add: ReadNext_def)
qed

end
