(* ===== verification/EndToEnd.thy ===== *)
theory EndToEnd
  imports Guarantees
begin

text \<open>
  The life of a message, from the wire to the messages it causes, on the in-memory repository:
  creating, joining and leaving a room, relaying of offers, answers and candidates, the answer that
  every message gets, and the clean-up when a session ends.
\<close>

section \<open>Reachable states\<close>

text \<open>Runs from the start of the server, on the in-memory repository.\<close>

lemma reachable_memory:
  assumes J: "nlohmann_json J utf8 ok elements bool_of"
    and run: "reachable (mem_ops ord) J env (Server_Run l InMemory_new) w"
  shows "buzzweb_server.world_ok InMemory_lookup InMemory_invar utf8 w" and "net_ok (net w)"
proof -
  have "buzzweb_server.world_ok InMemory_lookup InMemory_invar utf8 (Server_Run l InMemory_new)"
    by (rule buzzweb_server.world_ok_Run [OF memory_server [OF J]])
      (simp add: memory_repo_ok [OF J] memory_ok_new)
  then show "buzzweb_server.world_ok InMemory_lookup InMemory_invar utf8 w"
    by (rule buzzweb_server.reachable_world_ok [OF memory_server [OF J] run])
  show "net_ok (net w)" by (rule reachable_net_ok [OF run Server_Run_ok])
qed

lemma world_ok_memory:
  assumes "nlohmann_json J utf8 ok elements bool_of"
  shows "buzzweb_server.world_ok InMemory_lookup InMemory_invar utf8 w \<longleftrightarrow>
    memory_ok utf8 (repository w) \<and> (\<forall>s. ascii (participant_id (heap (net w) s)))"
  by (simp add: buzzweb_server.world_ok_def [OF memory_server [OF assms]] memory_repo_ok [OF assms])

section \<open>From a message to what is sent\<close>

text \<open>The state in which a message is handled, as reachable states provide it.\<close>

definition ready :: "(string \<Rightarrow> bool) \<Rightarrow> InMemoryRoomRepository \<Rightarrow> Net \<Rightarrow> address \<Rightarrow> bool" where
  "ready utf8 r n s \<longleftrightarrow> memory_ok utf8 r \<and> ascii (participant_id (heap n s))"

lemma reachable_ready:
  assumes "nlohmann_json J utf8 ok elements bool_of"
    and "reachable (mem_ops ord) J env (Server_Run l InMemory_new) w"
  shows "ready utf8 (repository w) (net w) s"
  using reachable_memory(1) [OF assms] by (simp add: ready_def world_ok_memory [OF assms(1)])

lemma HandleMessage_memory:
  assumes J: "nlohmann_json J utf8 ok elements bool_of" and ready: "ready utf8 r n s"
    and dec: "DecodeRequest J (participant_id (heap n s)) message = Inr req"
  obtains r' where "HandleMessage (mem_ops ord) J draws s message r n =
      (None, r', snd (on_result J s (fst (store_dispatch draws (meta req) (command req) (InMemory_lookup r))) n))"
    "memory_ok utf8 r'" "InMemory_lookup r' = snd (store_dispatch draws (meta req) (command req) (InMemory_lookup r))"
    "result_ok J utf8 ok (fst (store_dispatch draws (meta req) (command req) (InMemory_lookup r)))"
proof -
  have "buzzweb_server.repo_ok InMemory_lookup InMemory_invar utf8 r" "ascii (participant_id (heap n s))"
    using ready by (simp_all add: ready_def memory_repo_ok [OF J])
  from buzzweb_server.HandleMessage_request [OF memory_server [OF J] this dec, of ord draws] that show ?thesis
    unfolding memory_repo_ok [OF J] by metis
qed

text \<open>
  C3. A \<^verbatim>\<open>join_room\<close> message, from the wire to the messages it causes: the room's membership
  changes as the specification says; when the join is refused, exactly one message is sent, the
  error answer to the client; when it succeeds, the client gets its answer with the list of
  members, and then every other member that is connected, and nobody else, gets the
  \<^verbatim>\<open>participant_joined\<close> event, in the order of the room.
\<close>

theorem join_end_to_end:
  assumes J: "nlohmann_json J utf8 ok elements bool_of" and ready: "ready utf8 r n s"
    and dec: "DecodeRequest J (participant_id (heap n s)) message = Inr req"
    and cmd: "command req = JoinRoomCommand code p password"
  shows "\<exists>r' t. InMemory_lookup r' = snd (store_join code p password (InMemory_lookup r)) \<and>
    (case fst (store_join code p password (InMemory_lookup r)) of
       Err e \<Rightarrow> HandleMessage (mem_ops ord) J draws s message r n = (None, r', post_all [(s, t)] n)
         \<and> answers J elements bool_of t (ErrorResponse (meta req) (MapServiceError e))
     | Ok (ParticipantJoinedRoom c q ps) \<Rightarrow>
         (\<exists>u. HandleMessage (mem_ops ord) J draws s message r n =
             (None, r', post_all ((s, t) # map (\<lambda>a. (a, u)) (recipients (registry n) (Some (GetId p)) ps)) n)
           \<and> answers J elements bool_of t (SuccessResponse (meta req) (JoinRoomResponse c q ps))
           \<and> EncodeEvent J (JoinedRoomEvent c q ps) = Inr u))"
proof -
  obtain r' where h: "HandleMessage (mem_ops ord) J draws s message r n =
      (None, r', snd (on_result J s (fst (store_dispatch draws (meta req) (command req) (InMemory_lookup r))) n))"
    and r': "InMemory_lookup r' = snd (store_dispatch draws (meta req) (command req) (InMemory_lookup r))"
    and res: "result_ok J utf8 ok (fst (store_dispatch draws (meta req) (command req) (InMemory_lookup r)))"
    using HandleMessage_memory [OF J ready dec, of ord draws] by metis
  obtain out m' where sj: "store_join code p password (InMemory_lookup r) = (out, m')" by fastforce
  show ?thesis
  proof (cases out)
    case (Err e)
    with res cmd sj have "result_ok J utf8 ok (error_result (meta req) (MapServiceError e))" by simp
    from buzzweb_server.error_result_posts [OF memory_server [OF J] this, of s n]
    obtain t where "on_result J s (error_result (meta req) (MapServiceError e)) n = (None, post_all [(s, t)] n)"
      "answers J elements bool_of t (ErrorResponse (meta req) (MapServiceError e))" by metis
    with h r' Err cmd sj show ?thesis by (intro exI [of _ r'] exI [of _ t]) simp
  next
    case (Ok joined)
    obtain c q ps where joined: "joined = ParticipantJoinedRoom c q ps" by (cases joined)
    have q: "q = p" using sj Ok joined by (auto simp: store_join_def split: option.splits if_splits)
    let ?res = "success_result (meta req) (JoinRoomResponse c q ps) [JoinedRoomEvent c q ps]"
    have "result_ok J utf8 ok ?res" using res cmd sj Ok joined by simp
    from buzzweb_server.success_result_posts [OF memory_server [OF J] this, of s n]
    obtain t u where "on_result J s ?res n =
        (None, post_all ((s, t) # event_messages (registry n) (JoinedRoomEvent c q ps) u) n)"
      "answers J elements bool_of t (SuccessResponse (meta req) (JoinRoomResponse c q ps))"
      "EncodeEvent J (JoinedRoomEvent c q ps) = Inr u" by (metis SuccessResponsePayload.distinct(9))
    with h r' Ok joined cmd sj q show ?thesis
      by (intro exI [of _ r'] exI [of _ t]) (simp add: event_messages_recipients)
  qed
qed

text \<open>A room with one member, and its session beside that of a second client.\<close>

definition demo_rooms :: InMemoryRoomRepository where
  "demo_rooms = \<lparr>rooms = [(''000042'', demo_room)]\<rparr>"

definition demo_net :: Net where
  "demo_net = \<lparr>heap = (\<lambda>s. (Session_new False 0)\<lparr>participant_id := if s = 0 then ''p_2'' else ''p_1''\<rparr>),
     next_address = 2, registry = [(''p_1'', 1), (''p_2'', 0)], posted = []\<rparr>"

lemma demo_ready: "ready valid_utf8 demo_rooms demo_net s"
  by (auto simp: ready_def memory_ok_def demo_rooms_def demo_room_def demo_net_def InMemory_invar_def umap_wf_def
      InMemory_lookup_def store_wf_def room_wf_def no_empty_room_def IsEmpty_def store_utf8_def participant_utf8_def
      byte_in_def ascii_def)

lemma demo_join_decodes:
  "DecodeRequest text_api (participant_id (heap demo_net 0)) demo_join_text = Inr demo_join_request"
  using text_json.Decode_request_json [OF demo_join_wf] demo_join_parses by (simp add: demo_net_def)

theorem join_end_to_end_witness:
  "\<exists>r' t u. HandleMessage (mem_ops stored_order) text_api (\<lambda>i. i) 0 demo_join_text demo_rooms demo_net =
      (None, r', post_all [(0, t), (1, u)] demo_net)"
proof -
  let ?p = "\<lparr>GetId = ''p_2'', GetName = ''Bob''\<rparr>"
  have cmd: "command demo_join_request = JoinRoomCommand ''000042'' ?p (Some ''s3cret'')"
    by (simp add: demo_join_request_def)
  have sj: "fst (store_join ''000042'' ?p (Some ''s3cret'') (InMemory_lookup demo_rooms)) =
      Ok (ParticipantJoinedRoom ''000042'' ?p [\<lparr>GetId = ''p_1'', GetName = ''Ada''\<rparr>, ?p])"
    by (simp add: store_join_def InMemory_lookup_def demo_rooms_def demo_room_def member_ids_def admits_def)
  have who: "recipients (registry demo_net) (Some ''p_2'') [\<lparr>GetId = ''p_1'', GetName = ''Ada''\<rparr>, ?p] = [1]"
    by (simp add: recipients_def demo_net_def)
  show ?thesis
    using join_end_to_end [OF text_json.nlohmann_json_axioms demo_ready demo_join_decodes cmd, of stored_order "\<lambda>i. i"]
    by (auto simp: sj who)
qed

text \<open>
  C5. A \<^verbatim>\<open>create_room\<close> message, from the wire to the messages it causes: only the client is
  answered. When one of the first hundred drawn codes is free, the first such code gets a new room
  with the password of the request and the client as its only member, and the answer says so;
  otherwise no room changes and the answer is \<^verbatim>\<open>room_code_generation_failed\<close>.
\<close>

theorem create_end_to_end:
  assumes J: "nlohmann_json J utf8 ok elements bool_of" and ready: "ready utf8 r n s"
    and dec: "DecodeRequest J (participant_id (heap n s)) message = Inr req"
    and cmd: "command req = CreateRoomCommand p password"
  shows "\<exists>r' t. HandleMessage (mem_ops ord) J draws s message r n = (None, r', post_all [(s, t)] n)
    \<and> GetId p = participant_id (heap n s)
    \<and> (if \<forall>i < 100. InMemory_lookup r (GenerateRoomCode (draws i)) \<noteq> None
       then InMemory_lookup r' = InMemory_lookup r
         \<and> answers J elements bool_of t (ErrorResponse (meta req) RoomCodeGenerationFailedResponse)
       else \<exists>i code. i < 100 \<and> code = GenerateRoomCode (draws i) \<and> InMemory_lookup r code = None
         \<and> (\<forall>j < i. InMemory_lookup r (GenerateRoomCode (draws j)) \<noteq> None)
         \<and> InMemory_lookup r' = (InMemory_lookup r)(code \<mapsto>
              \<lparr>GetCode = code, room_secret = password, GetParticipants = [p]\<rparr>)
         \<and> answers J elements bool_of t (SuccessResponse (meta req) (CreateRoomResponse code p [p])))"
proof -
  let ?m = "InMemory_lookup r"
  let ?found = "find (\<lambda>i. ?m (GenerateRoomCode (draws i)) = None) [0..<max_attempts]"
  obtain r' where h: "HandleMessage (mem_ops ord) J draws s message r n =
      (None, r', snd (on_result J s (fst (store_dispatch draws (meta req) (command req) ?m)) n))"
    and r': "InMemory_lookup r' = snd (store_dispatch draws (meta req) (command req) ?m)"
    and res: "result_ok J utf8 ok (fst (store_dispatch draws (meta req) (command req) ?m))"
    using HandleMessage_memory [OF J ready dec, of ord draws] by metis
  have sender: "GetId p = participant_id (heap n s)" using DecodeRequest_shape [OF dec] cmd by simp
  show ?thesis
  proof (cases ?found)
    case None
    then have taken: "\<forall>i < 100. ?m (GenerateRoomCode (draws i)) \<noteq> None"
      by (simp add: store_create_None max_attempts_def del: not_None_eq)
    have "result_ok J utf8 ok (error_result (meta req) RoomCodeGenerationFailedResponse)" using res cmd None by simp
    from buzzweb_server.error_result_posts [OF memory_server [OF J] this, of s n]
    obtain t where "on_result J s (error_result (meta req) RoomCodeGenerationFailedResponse) n = (None, post_all [(s, t)] n)"
      "answers J elements bool_of t (ErrorResponse (meta req) RoomCodeGenerationFailedResponse)" by metis
    with h r' cmd None sender taken show ?thesis
      by (intro exI [of _ r'] exI [of _ t]) (simp del: not_None_eq)
  next
    case (Some i)
    let ?code = "GenerateRoomCode (draws i)"
    note first = store_create_Some [OF Some, unfolded max_attempts_def]
    have "result_ok J utf8 ok (success_result (meta req) (CreateRoomResponse ?code p [p]) [])"
      using res cmd Some by (simp add: Let_def)
    from buzzweb_server.success_result_answered [OF memory_server [OF J] this, of s n]
    obtain t where "on_result J s (success_result (meta req) (CreateRoomResponse ?code p [p]) []) n = (None, post_all [(s, t)] n)"
      "answers J elements bool_of t (SuccessResponse (meta req) (CreateRoomResponse ?code p [p]))"
      by (metis SuccessResponsePayload.distinct(5))
    with h r' cmd Some sender first show ?thesis
      by (intro exI [of _ r'] exI [of _ t]) (auto simp: Let_def)
  qed
qed

theorem create_end_to_end_witness:
  "\<exists>r' t. HandleMessage (mem_ops stored_order) text_api (\<lambda>i. i) 0 demo_create_text demo_rooms demo_net =
      (None, r', post_all [(0, t)] demo_net)"
proof -
  have cmd: "command (demo_create_request (participant_id (heap demo_net 0))) =
      CreateRoomCommand \<lparr>GetId = participant_id (heap demo_net 0), GetName = ''Ann''\<rparr> None"
    by (simp add: demo_create_request_def)
  show ?thesis
    using create_end_to_end [OF text_json.nlohmann_json_axioms demo_ready demo_create_decodes cmd, of stored_order "\<lambda>i. i"]
    by blast
qed

text \<open>
  C6. A \<^verbatim>\<open>leave_room\<close> message, from the wire to the messages it causes: the client leaves
  the room it names, and a room left empty disappears; when it is not in that room, the only message
  is the error answer; otherwise the client gets its answer, and then every member who stays and is
  connected, and nobody else, gets the \<^verbatim>\<open>participant_left\<close> event.
\<close>

theorem leave_end_to_end:
  assumes J: "nlohmann_json J utf8 ok elements bool_of" and ready: "ready utf8 r n s"
    and dec: "DecodeRequest J (participant_id (heap n s)) message = Inr req"
    and cmd: "command req = LeaveRoomCommand code pid"
  shows "\<exists>r' t. pid = participant_id (heap n s) \<and> InMemory_lookup r' = snd (store_leave code pid (InMemory_lookup r)) \<and>
    (if in_store pid code (InMemory_lookup r)
     then \<exists>u. HandleMessage (mem_ops ord) J draws s message r n =
             (None, r', post_all ((s, t) # map (\<lambda>a. (a, u))
                (recipients (registry n) None (remaining pid (InMemory_lookup r) code))) n)
           \<and> answers J elements bool_of t (SuccessResponse (meta req) (LeaveRoomResponse code))
           \<and> EncodeEvent J (LeftRoomEvent code pid (remaining pid (InMemory_lookup r) code)) = Inr u
           \<and> \<not> in_store pid code (InMemory_lookup r')
     else HandleMessage (mem_ops ord) J draws s message r n = (None, r', post_all [(s, t)] n)
       \<and> answers J elements bool_of t (ErrorResponse (meta req)
           (if InMemory_lookup r code = None then RoomNotFoundResponse else NotInRoomResponse)))"
proof -
  let ?m = "InMemory_lookup r"
  obtain r' where h: "HandleMessage (mem_ops ord) J draws s message r n =
      (None, r', snd (on_result J s (fst (store_dispatch draws (meta req) (command req) ?m)) n))"
    and r': "InMemory_lookup r' = snd (store_dispatch draws (meta req) (command req) ?m)"
    and res: "result_ok J utf8 ok (fst (store_dispatch draws (meta req) (command req) ?m))"
    using HandleMessage_memory [OF J ready dec, of ord draws] by metis
  have sender: "pid = participant_id (heap n s)" using DecodeRequest_shape [OF dec] cmd by simp
  show ?thesis
  proof (cases "in_store pid code ?m")
    case False
    let ?e = "if ?m code = None then RoomNotFoundResponse else NotInRoomResponse"
    have d: "store_dispatch draws (meta req) (command req) ?m = (error_result (meta req) ?e, ?m)"
      "snd (store_leave code pid ?m) = ?m"
      using False cmd by (auto simp: store_leave_def in_store_def service_defs MapServiceError_def split: option.splits)
    from buzzweb_server.error_result_posts [OF memory_server [OF J] res [unfolded d fst_conv], of s n]
    obtain t where "on_result J s (error_result (meta req) ?e) n = (None, post_all [(s, t)] n)"
      "answers J elements bool_of t (ErrorResponse (meta req) ?e)" by metis
    with h r' d sender False show ?thesis by (intro exI [of _ r'] exI [of _ t]) simp
  next
    case True
    let ?rest = "remaining pid ?m code"
    let ?res = "success_result (meta req) (LeaveRoomResponse code) [LeftRoomEvent code pid ?rest]"
    have d: "store_dispatch draws (meta req) (command req) ?m = (?res, snd (store_leave code pid ?m))"
      and gone: "\<not> in_store pid code (snd (store_leave code pid ?m))"
      using True cmd by (auto simp: store_leave_def in_store_def remaining_def split: option.splits)
    from buzzweb_server.success_result_posts [OF memory_server [OF J] res [unfolded d fst_conv], of s n]
    obtain t u where "on_result J s ?res n = (None, post_all ((s, t) # event_messages (registry n) (LeftRoomEvent code pid ?rest) u) n)"
      "answers J elements bool_of t (SuccessResponse (meta req) (LeaveRoomResponse code))"
      "EncodeEvent J (LeftRoomEvent code pid ?rest) = Inr u" by (metis SuccessResponsePayload.distinct(11))
    with h r' d sender gone True show ?thesis
      by (intro exI [of _ r'] exI [of _ t]) (simp add: event_messages_recipients)
  qed
qed

text \<open>
  C2. An offer, answer or candidate, from the wire to the messages it causes. When sender and
  target are members of the room and the target is connected, the target gets the sender's payload,
  stamped by the server with the room, the target and the true sender, and the sender gets a
  success answer; when the target is not connected, the sender alone gets
  \<^verbatim>\<open>participant_unavailable\<close>; when one of the two is not in the room, the sender alone gets
  \<^verbatim>\<open>not_in_room\<close>. No room changes.
\<close>

theorem signaling_end_to_end:
  assumes J: "nlohmann_json J utf8 ok elements bool_of" and ready: "ready utf8 r n s"
    and dec: "DecodeRequest J (participant_id (heap n s)) message = Inr req"
    and cmd: "command req = SignalingCommand ty code sender target data"
  shows "\<exists>r' t. InMemory_lookup r' = InMemory_lookup r \<and> sender = participant_id (heap n s) \<and>
    (if \<not> (in_store sender code (InMemory_lookup r) \<and> in_store target code (InMemory_lookup r))
     then HandleMessage (mem_ops ord) J draws s message r n = (None, r', post_all [(s, t)] n)
       \<and> answers J elements bool_of t (ErrorResponse (meta req) NotInRoomResponse)
     else case SessionRegistry_Find target (registry n) of
       None \<Rightarrow> HandleMessage (mem_ops ord) J draws s message r n = (None, r', post_all [(s, t)] n)
         \<and> answers J elements bool_of t (ErrorResponse (meta req) ParticipantUnavailableResponse)
     | Some a \<Rightarrow> \<exists>u j. HandleMessage (mem_ops ord) J draws s message r n = (None, r', post_all [(a, u), (s, t)] n)
         \<and> answers J elements bool_of t
             (SuccessResponse (meta req) (SignalingResponse ty code sender target data))
         \<and> json_parse J u = Some j \<and> field_string J j ''type'' (SignalingTypeToString ty)
         \<and> field_string J (json_at J j ''payload'') ''room_code'' code
         \<and> field_string J (json_at J j ''payload'') ''target_participant_id'' target
         \<and> field_string J (json_at J j ''payload'') ''from_participant_id'' sender)"
proof -
  note server = memory_server [OF J]
  obtain r' where h: "HandleMessage (mem_ops ord) J draws s message r n =
      (None, r', snd (on_result J s (fst (store_dispatch draws (meta req) (command req) (InMemory_lookup r))) n))"
    and r': "InMemory_lookup r' = snd (store_dispatch draws (meta req) (command req) (InMemory_lookup r))"
    and res: "result_ok J utf8 ok (fst (store_dispatch draws (meta req) (command req) (InMemory_lookup r)))"
    using HandleMessage_memory [OF J ready dec, of ord draws] by metis
  have sender: "sender = participant_id (heap n s)" using DecodeRequest_shape [OF dec] cmd by simp
  have same: "InMemory_lookup r' = InMemory_lookup r" using r' cmd by simp
  show ?thesis
  proof (cases "in_store sender code (InMemory_lookup r) \<and> in_store target code (InMemory_lookup r)")
    case False
    then have "result_ok J utf8 ok (error_result (meta req) NotInRoomResponse)" using res cmd by auto
    from buzzweb_server.error_result_posts [OF server this, of s n]
    obtain t where "on_result J s (error_result (meta req) NotInRoomResponse) n = (None, post_all [(s, t)] n)"
      "answers J elements bool_of t (ErrorResponse (meta req) NotInRoomResponse)" by metis
    with h same sender cmd False show ?thesis by (intro exI [of _ r'] exI [of _ t]) auto
  next
    case True
    let ?res = "success_result (meta req) (SignalingResponse ty code sender target data) []"
    have ok: "result_ok J utf8 ok ?res" using res cmd True by simp
    then have sig: "is_object J data" "ok data" "utf8 code" "utf8 sender" "utf8 target"
      by (simp_all add: result_ok_def)
    have h': "HandleMessage (mem_ops ord) J draws s message r n = (None, r', snd (on_result J s ?res n))"
      using h cmd True by simp
    show ?thesis
    proof (cases "map_of (registry n) target")
      case None
      with buzzweb_server.signaling_result_posts [OF server ok, where n = n and s = s] h' same sender True show ?thesis
        by (fastforce intro: exI [of _ r'])
    next
      case (Some a)
      with buzzweb_server.signaling_result_posts [OF server ok, where n = n and s = s] obtain t u where
        post: "on_result J s ?res n = (None, post_all [(a, u), (s, t)] n)"
          "answers J elements bool_of t (SuccessResponse (meta req) (SignalingResponse ty code sender target data))"
          "EncodeSignalingEvent J ty code sender target data = Inr u" by auto
      from nlohmann_json.EncodeSignalingEvent_view [OF J sig, of ty] post(3)
      obtain j where "json_parse J u = Some j" "field_string J j ''type'' (SignalingTypeToString ty)"
        "field_string J (json_at J j ''payload'') ''room_code'' code"
        "field_string J (json_at J j ''payload'') ''target_participant_id'' target"
        "field_string J (json_at J j ''payload'') ''from_participant_id'' sender" by (metis sum.inject(2))
      with post h' same sender True Some show ?thesis by (intro exI [of _ r'] exI [of _ t]) auto
    qed
  qed
qed

definition demo_pair :: InMemoryRoomRepository where
  "demo_pair = \<lparr>rooms = [(''000042'', demo_room\<lparr>GetParticipants :=
     [\<lparr>GetId = ''p_1'', GetName = ''Ada''\<rparr>, \<lparr>GetId = ''p_2'', GetName = ''Bob''\<rparr>]\<rparr>)]\<rparr>"

lemma demo_pair_ready: "ready valid_utf8 demo_pair demo_net s"
  by (auto simp: ready_def memory_ok_def demo_pair_def demo_room_def demo_net_def InMemory_invar_def umap_wf_def
      InMemory_lookup_def store_wf_def room_wf_def no_empty_room_def IsEmpty_def store_utf8_def participant_utf8_def
      byte_in_def ascii_def)

definition demo_offer_data :: json where
  "demo_offer_data = JObj [(''room_code'', JStr ''000042''), (''target_participant_id'', JStr ''p_1''),
     (''sdp'', JStr ''v=0'')]"

definition demo_offer_request :: "json ControlDispatcherRequest" where
  "demo_offer_request =
     \<lparr>meta = \<lparr>meta_type = Signaling, request_id = Some ''r8'', signaling_type = Some Offer\<rparr>,
      command = SignalingCommand Offer ''000042'' ''p_2'' ''p_1'' demo_offer_data\<rparr>"

definition demo_offer_text :: string where
  "demo_offer_text = print_json (request_json text_api demo_offer_request)"

lemma demo_offer_decodes:
  "DecodeRequest text_api (participant_id (heap demo_net 0)) demo_offer_text = Inr demo_offer_request"
proof (rule text_json.Decode_request_json)
  show "request_wf text_api (participant_id (heap demo_net 0)) demo_offer_request"
    by (simp add: request_wf_def demo_offer_request_def demo_offer_data_def demo_net_def field_string_def)
  have "ok_json (request_json text_api demo_offer_request)"
    by (simp add: demo_offer_request_def demo_offer_data_def request_json_def request_name_def optional_field_def
        object_of_def umap_assign_def byte_in_def)
  then show "json_parse text_api demo_offer_text = Some (request_json text_api demo_offer_request)"
    unfolding demo_offer_text_def text_api_sel by (rule parse_print)
qed

theorem signaling_end_to_end_witness:
  "\<exists>r' t u j. HandleMessage (mem_ops stored_order) text_api (\<lambda>i. i) 0 demo_offer_text demo_pair demo_net =
      (None, r', post_all [(1, u), (0, t)] demo_net)
     \<and> json_parse text_api u = Some j
     \<and> field_string text_api (json_at text_api j ''payload'') ''from_participant_id'' ''p_2''"
proof -
  have cmd: "command demo_offer_request = SignalingCommand Offer ''000042'' ''p_2'' ''p_1'' demo_offer_data"
    by (simp add: demo_offer_request_def)
  have "in_store ''p_2'' ''000042'' (InMemory_lookup demo_pair)" "in_store ''p_1'' ''000042'' (InMemory_lookup demo_pair)"
    "map_of (registry demo_net) ''p_1'' = Some 1"
    by (simp_all add: in_store_def InMemory_lookup_def demo_pair_def demo_room_def member_ids_def demo_net_def)
  then show ?thesis
    using signaling_end_to_end [OF text_json.nlohmann_json_axioms demo_pair_ready demo_offer_decodes cmd,
        of stored_order "\<lambda>i. i"]
    by (auto simp del: text_api_sel)
qed

definition demo_leave_request :: "json ControlDispatcherRequest" where
  "demo_leave_request =
     \<lparr>meta = \<lparr>meta_type = LeaveRoom, request_id = None, signaling_type = None\<rparr>,
      command = LeaveRoomCommand ''000042'' ''p_2''\<rparr>"

lemma demo_leave_decodes:
  "DecodeRequest text_api (participant_id (heap demo_net 0)) (print_json (request_json text_api demo_leave_request))
     = Inr demo_leave_request"
proof (rule text_json.Decode_request_json)
  show "request_wf text_api (participant_id (heap demo_net 0)) demo_leave_request"
    by (simp add: request_wf_def demo_leave_request_def demo_net_def)
  have "ok_json (request_json text_api demo_leave_request)"
    by (simp add: demo_leave_request_def request_json_def request_name_def optional_field_def object_of_def
        umap_assign_def byte_in_def)
  then show "json_parse text_api (print_json (request_json text_api demo_leave_request))
      = Some (request_json text_api demo_leave_request)"
    unfolding text_api_sel by (rule parse_print)
qed

theorem leave_end_to_end_witness:
  "\<exists>r' t u. HandleMessage (mem_ops stored_order) text_api (\<lambda>i. i) 0
       (print_json (request_json text_api demo_leave_request)) demo_pair demo_net =
      (None, r', post_all [(0, t), (1, u)] demo_net)
     \<and> \<not> in_store ''p_2'' ''000042'' (InMemory_lookup r')"
proof -
  have cmd: "command demo_leave_request = LeaveRoomCommand ''000042'' ''p_2''"
    by (simp add: demo_leave_request_def)
  have "in_store ''p_2'' ''000042'' (InMemory_lookup demo_pair)"
    "recipients (registry demo_net) None (remaining ''p_2'' (InMemory_lookup demo_pair) ''000042'') = [1]"
    by (simp_all add: in_store_def remaining_def recipients_def InMemory_lookup_def demo_pair_def demo_room_def
        member_ids_def demo_net_def)
  then show ?thesis
    using leave_end_to_end [OF text_json.nlohmann_json_axioms demo_pair_ready demo_leave_decodes cmd,
        of stored_order "\<lambda>i. i"]
    by (auto simp del: text_api_sel) (intro exI, rule refl)
qed

text \<open>
  The request id that the answer to a message has to carry, read off the message itself: the text
  under \<^verbatim>\<open>request_id\<close> of a JSON object whose \<^verbatim>\<open>type\<close> is a text. A message without such a
  type is no request, and its id is not looked at.
\<close>

definition message_request_id :: "'j json_api \<Rightarrow> string \<Rightarrow> string option" where
  "message_request_id J message =
     (case json_parse J message of
        None \<Rightarrow> None
      | Some j \<Rightarrow>
          if is_object J j \<and> contains J j ''type'' \<and> is_string J (json_at J j ''type'')
             \<and> contains J j ''request_id'' \<and> is_string J (json_at J j ''request_id'')
          then Some (get_string J (json_at J j ''request_id'')) else None)"

text \<open>The request id that the decoder hands on, in the request or in the error.\<close>

fun reply_id :: "decode_exn + 'j ControlDispatcherRequest \<Rightarrow> string option" where
  "reply_id (Inr req) = request_id (meta req)"
| "reply_id (Inl e) = (case e of ProtocolDecodeError mt code rid \<Rightarrow> rid | _ \<Rightarrow> None)"

lemma reply_id_message: "reply_id (DecodeRequest J pid message) = message_request_id J message"
proof (cases "json_parse J message")
  case None
  then show ?thesis by (simp add: DecodeRequest_def message_request_id_def)
next
  case (Some j)
  show ?thesis
  proof (cases "is_object J j \<and> contains J j ''type'' \<and> is_string J (json_at J j ''type'')")
    case False
    with Some show ?thesis by (auto simp: DecodeRequest_def message_request_id_def ProtocolDecodeError_new_def)
  next
    case True
    show ?thesis
    proof (cases "decode_meta (get_string J (json_at J j ''type''))")
      case None
      with Some True show ?thesis
        by (simp add: DecodeRequest_def message_request_id_def ProtocolDecodeError_new_def Let_def)
    next
      case mt: (Some mt)
      then have "request_id mt = None" by (rule decode_meta_Some) simp_all
      with Some True mt decode_command_error [of J pid] show ?thesis
        by (auto simp: DecodeRequest_def message_request_id_def ProtocolDecodeError_new_def Let_def field_error_def
            split: sum.splits exn.splits)
    qed
  qed
qed

lemma protocol_error_posts:
  assumes J: "nlohmann_json J utf8 ok elements bool_of"
    and "ascii code" and "request_id_utf8 utf8 rid"
    and "\<And>m. mt = Some m \<Longrightarrow> request_id_utf8 utf8 (request_id m)"
    and prefers: "(case mt of Some m \<Rightarrow> (case request_id m of Some i \<Rightarrow> Some i | None \<Rightarrow> rid) | None \<Rightarrow> rid) = rid"
  obtains t j ty where "send_protocol_error J s mt code rid n = (None, post_all [(s, t)] n)"
    "json_parse J t = Some j" "answer_view J bool_of j ty False rid"
proof -
  obtain t j where "EncodeProtocolError J mt code rid = Inr t" "json_parse J t = Some j"
    "answer_view J bool_of j (case mt of Some m \<Rightarrow> ResultType m | None \<Rightarrow> ''error'') False
       (case mt of Some m \<Rightarrow> (case request_id m of Some i \<Rightarrow> Some i | None \<Rightarrow> rid) | None \<Rightarrow> rid)"
    using nlohmann_json.EncodeProtocolError_view [OF assms(1-4)] by blast
  note this [unfolded prefers]
  then show ?thesis by (intro that) (simp_all add: send_protocol_error_def Send_post)
qed

text \<open>A list of posted texts with one answer among relayed and event messages.\<close>

definition single_answer ::
  "'j json_api \<Rightarrow> ('j \<Rightarrow> bool) \<Rightarrow> SessionRegistry \<Rightarrow> address \<Rightarrow> string option \<Rightarrow> (address \<times> string) list \<Rightarrow> bool"
where
  "single_answer J bool_of reg s rid ms \<longleftrightarrow>
     (\<exists>relay t evs j ty verdict. ms = relay @ (s, t) # evs
        \<and> json_parse J t = Some j \<and> answer_view J bool_of j ty verdict rid
        \<and> length relay \<le> 1
        \<and> (\<forall>m \<in> set relay. \<exists>ty code sender target data. SessionRegistry_Find target reg = Some (fst m)
             \<and> EncodeSignalingEvent J ty code sender target data = Inr (snd m))
        \<and> (\<forall>m \<in> set evs. \<exists>event. EncodeEvent J event = Inr (snd m)))"

lemma single_answerI:
  assumes "json_parse J t = Some j" and "answer_view J bool_of j ty verdict rid" and "length relay \<le> 1"
    and "\<And>m. m \<in> set relay \<Longrightarrow> \<exists>ty code sender target data. map_of reg target = Some (fst m)
       \<and> EncodeSignalingEvent J ty code sender target data = Inr (snd m)"
    and "\<And>m. m \<in> set evs \<Longrightarrow> \<exists>event \<in> E. EncodeEvent J event = Inr (snd m)"
  shows "single_answer J bool_of reg s rid (relay @ (s, t) # evs)"
proof -
  have "\<forall>m \<in> set relay. \<exists>ty code sender target data. map_of reg target = Some (fst m)
       \<and> EncodeSignalingEvent J ty code sender target data = Inr (snd m)"
    using assms(4) by (rule ballI)
  moreover have "\<forall>m \<in> set evs. \<exists>event. EncodeEvent J event = Inr (snd m)" using assms(5) by blast
  ultimately show ?thesis
    unfolding single_answer_def SessionRegistry_Find_map
    using assms(1-3)
    by (rule_tac exI [of _ relay], rule_tac exI [of _ t], rule_tac exI [of _ evs], rule_tac exI [of _ j],
        rule_tac exI [of _ ty], rule_tac exI [of _ verdict]) (intro conjI refl)
qed

text \<open>A message that is not a request is answered with a protocol error and changes nothing else.\<close>

lemma HandleMessage_rejected:
  assumes J: "nlohmann_json J utf8 ok elements bool_of"
    and Inl: "DecodeRequest J (participant_id (heap n s)) message = Inl e"
  obtains t j ty where "HandleMessage (mem_ops ord) J draws s message r n = (None, r, post_all [(s, t)] n)"
    "json_parse J t = Some j"
    "answer_view J bool_of j ty False (reply_id (Inl e :: decode_exn + unit ControlDispatcherRequest))"
proof -
  have codes: "ascii ''invalid_json''" "ascii ''invalid_message''" "ascii ''missing_field''" "ascii ''invalid_field''"
    by (simp_all add: ascii_def)
  have none: "request_id_utf8 utf8 None" by (simp add: request_id_utf8_def)
  from DecodeRequest_classified [OF Inl] codes
  consider "e = parse_error" | "e = other_decode_exn json_out_of_range"
    | mt code rid where "e = ProtocolDecodeError mt code rid" "ascii code" by blast
  then show ?thesis
  proof cases
    case 1
    from protocol_error_posts [OF J codes(1) none, of None s n]
    obtain t j ty where "send_protocol_error J s None ''invalid_json'' None n = (None, post_all [(s, t)] n)"
      "json_parse J t = Some j" "answer_view J bool_of j ty False None" by auto
    then show ?thesis by (intro that [of t j ty]) (simp_all add: HandleMessage_def Inl 1)
  next
    case 2
    from protocol_error_posts [OF J codes(2) none, of None s n]
    obtain t j ty where "send_protocol_error J s None ''invalid_message'' None n = (None, post_all [(s, t)] n)"
      "json_parse J t = Some j" "answer_view J bool_of j ty False None" by auto
    then show ?thesis
      by (intro that [of t j ty]) (simp_all add: HandleMessage_def Inl 2 json_out_of_range_def)
  next
    case (3 mt code rid)
    note e = 3(1) and code = 3(2)
    have id: "request_id_utf8 utf8 rid" "\<And>m. mt = Some m \<Longrightarrow> request_id_utf8 utf8 (request_id m)"
      using buzzweb_server.DecodeRequest_error_utf8 [OF memory_server [OF J] Inl [unfolded e]] by auto
    obtain t j ty where "send_protocol_error J s mt code rid n = (None, post_all [(s, t)] n)"
      "json_parse J t = Some j" "answer_view J bool_of j ty False rid"
      by (rule protocol_error_posts [OF J code id DecodeRequest_error_prefers [OF Inl [unfolded e]]])
    then show ?thesis by (intro that [of t j ty]) (simp_all add: HandleMessage_def Inl e)
  qed
qed

text \<open>
  C1. Every text message is answered exactly once: whatever it contains, the client's session is
  sent one text that is an answer with a verdict, after at most one relayed message and before the
  events; all other texts posted are that relayed message and encoded events. The answer carries
  the request id of the message when that is a JSON object with a textual type and a textual
  \<^verbatim>\<open>request_id\<close>, whether the request succeeds, fails or is malformed; otherwise it carries none (in
  particular, a message without a textual type is answered without its id).
\<close>

theorem one_answer_per_message:
  assumes J: "nlohmann_json J utf8 ok elements bool_of" and ready: "ready utf8 r n s"
  shows "\<exists>r' ms. HandleMessage (mem_ops ord) J draws s message r n = (None, r', post_all ms n)
    \<and> single_answer J bool_of (registry n) s (message_request_id J message) ms"
proof (cases "DecodeRequest J (participant_id (heap n s)) message")
  case (Inr req)
  have id: "message_request_id J message = request_id (meta req)"
    using reply_id_message [of J "participant_id (heap n s)" message] Inr by simp
  let ?res = "fst (store_dispatch draws (meta req) (command req) (InMemory_lookup r))"
  obtain r' where h: "HandleMessage (mem_ops ord) J draws s message r n = (None, r', snd (on_result J s ?res n))"
    and ok: "result_ok J utf8 ok ?res"
    using HandleMessage_memory [OF J ready Inr, of ord draws] by metis
  have "\<forall>mt ty code sender target data.
      response ?res = SuccessResponse mt (SignalingResponse ty code sender target data) \<longrightarrow> events ?res = []"
    by (intro allI impI) (rule store_dispatch_response(2))
  from buzzweb_server.on_result_one_answer [OF memory_server [OF J] ok this, where s = s and n = n]
  obtain relay t evs resp where a: "on_result J s ?res n = (None, post_all (relay @ (s, t) # evs) n)"
    "answers J elements bool_of t resp" "response_meta resp = response_meta (response ?res)" "length relay \<le> 1"
    "\<And>m. m \<in> set relay \<Longrightarrow> \<exists>ty code sender target data. map_of (registry n) target = Some (fst m)
       \<and> EncodeSignalingEvent J ty code sender target data = Inr (snd m)"
    "\<And>m. m \<in> set evs \<Longrightarrow> \<exists>event \<in> set (events ?res). EncodeEvent J event = Inr (snd m)"
    by blast
  from a(2) obtain j where "json_parse J t = Some j"
    "answer_view J bool_of j (ResultType (response_meta resp)) (is_success resp) (request_id (response_meta resp))"
    by (auto simp: answers_def)
  from single_answerI [OF this a(4-6)] h a(1,3) show ?thesis
    by (simp add: store_dispatch_response(1) id) blast
next
  case (Inl e)
  from HandleMessage_rejected [OF J Inl, of ord draws r]
  obtain t j ty where "HandleMessage (mem_ops ord) J draws s message r n = (None, r, post_all [(s, t)] n)"
    "json_parse J t = Some j"
    "answer_view J bool_of j ty False (reply_id (Inl e :: decode_exn + unit ControlDispatcherRequest))" .
  moreover have "message_request_id J message = reply_id (Inl e :: decode_exn + unit ControlDispatcherRequest)"
    using reply_id_message [of J "participant_id (heap n s)" message] Inl by simp
  ultimately show ?thesis
    using single_answerI [of J t j bool_of ty False "message_request_id J message" "[]" "registry n" "[]" "{}" s]
    by (intro exI [of _ r] exI [of _ "[(s, t)]"]) simp
qed

theorem one_answer_per_message_witness:
  "\<exists>r' ms. HandleMessage (mem_ops stored_order) text_api (\<lambda>i. i) 0
        (print_json (JObj [(''type'', JStr ''fly''), (''request_id'', JStr ''r9'')])) demo_pair demo_net
        = (None, r', post_all ms demo_net)
     \<and> single_answer text_api bool_value (registry demo_net) 0 (Some ''r9'') ms"
proof -
  let ?j = "JObj [(''type'', JStr ''fly''), (''request_id'', JStr ''r9'')]"
  have "json_parse text_api (print_json ?j) = Some ?j"
    unfolding text_api_sel by (rule parse_print) (simp add: byte_in_def)
  then have "message_request_id text_api (print_json ?j) = Some ''r9''"
    unfolding message_request_id_def by (simp only: option.case) simp
  with one_answer_per_message [OF text_json.nlohmann_json_axioms demo_pair_ready,
      where ord = stored_order and draws = "\<lambda>i. i" and message = "print_json ?j"]
  show ?thesis by (simp only:)
qed

lemma left_event_encodes:
  assumes J: "nlohmann_json J utf8 ok elements bool_of" and "store_utf8 utf8 m" and "utf8 pid" and "in_store pid code m"
  obtains t where "EncodeEvent J (LeftRoomEvent code pid (remaining pid m code)) = Inr t"
proof -
  obtain room where "m code = Some room" using assms(4) by (cases "m code") (auto simp: in_store_def)
  then have "event_utf8 utf8 (LeftRoomEvent code pid (remaining pid m code))"
    using assms(2,3) remaining_utf8 [OF assms(2)] by (auto simp: store_utf8_def)
  then show ?thesis using nlohmann_json.EncodeEvent_view [OF J] that by metis
qed

lemma disconnect_posts:
  assumes J: "nlohmann_json J utf8 ok elements bool_of" and ready: "ready utf8 r n s"
    and reg: "registered (heap n s)" and pid: "pid = participant_id (heap n s)"
    and run: "RemoveFromRegistry (mem_ops ord) J s r n = (r', n')"
  obtains codes text_of where "distinct codes" "set codes = {code. in_store pid code (InMemory_lookup r)}"
    "\<And>code. code \<in> set codes \<Longrightarrow>
       EncodeEvent J (LeftRoomEvent code pid (remaining pid (InMemory_lookup r) code)) = Inr (text_of code)"
    "n' = post_all (concat (map (\<lambda>code. map (\<lambda>t. (t, text_of code))
       (recipients (registry n') None (remaining pid (InMemory_lookup r) code))) codes)) (unregister s n)"
proof -
  let ?m = "InMemory_lookup r" and ?ev = "\<lambda>code. LeftRoomEvent code pid (remaining pid (InMemory_lookup r) code)"
  from ready have inv: "InMemory_invar r" and utf8: "store_utf8 utf8 ?m" "utf8 pid"
    using nlohmann_json.ascii_utf8 [OF J] by (simp_all add: ready_def memory_ok_def pid)
  obtain cs where cs: "distinct cs" "set cs = dom ?m" "fst (HandleParticipantDisconnected (mem_ops ord) pid r) =
      Inr (map ?ev (filter (\<lambda>code. in_store pid code ?m) cs))"
    using service.Disconnected_refines [OF inv, of ord pid] by metis
  define codes where "codes = filter (\<lambda>code. in_store pid code ?m) cs"
  define text_of where "text_of = (\<lambda>code. projr (EncodeEvent J (?ev code)))"
  have codes: "distinct codes" "set codes = {code. in_store pid code ?m}"
    using cs(1,2) by (auto simp: codes_def in_store_def split: option.splits)
  have enc: "EncodeEvent J (?ev code) = Inr (text_of code)" if "code \<in> set codes" for code
    using left_event_encodes [OF J utf8, of code] that codes(2) by (metis mem_Collect_eq sum.sel(2) text_of_def)
  have "registry n' = registry (unregister s n)"
    using RemoveFromRegistry_effect(3) [where ops = "mem_ops ord" and J = J and s = s and r = r and n = n] run reg
    by simp
  moreover obtain r1 where "HandleParticipantDisconnected (mem_ops ord) pid r = (Inr (map ?ev codes), r1)"
    using cs(3) by (cases "HandleParticipantDisconnected (mem_ops ord) pid r") (simp add: codes_def)
  then have "n' = snd (DeliverEvents J (map ?ev codes) (unregister s n))"
    using run reg by (simp add: RemoveFromRegistry_def Let_def unregister_def flip: pid)
  ultimately have "n' = post_all (snd (events_messages J (registry n') (map ?ev codes))) (unregister s n)"
    by (simp add: DeliverEvents_messages)
  also have "snd (events_messages J (registry n') (map ?ev codes)) =
      concat (map (\<lambda>code. map (\<lambda>t. (t, text_of code)) (recipients (registry n') None (remaining pid ?m code))) codes)"
  proof -
    have "EncodeEvent J event = Inr (projr (EncodeEvent J event))" if "event \<in> set (map ?ev codes)" for event
      using that by (auto simp: enc)
    then show ?thesis
      by (subst events_messages_all [where text_of = "\<lambda>event. projr (EncodeEvent J event)"])
        (simp_all add: comp_def event_messages_recipients text_of_def)
  qed
  finally have posts: "n' = post_all (concat (map (\<lambda>code. map (\<lambda>t. (t, text_of code))
       (recipients (registry n') None (remaining pid ?m code))) codes)) (unregister s n)" .
  show ?thesis by (rule that [OF codes _ posts]) (rule enc)
qed

text \<open>
  C4. When a session ends (the peer closes, an operation fails, or \<^verbatim>\<open>Close\<close> runs), its
  participant is taken out of every room and out of the registry, empty rooms disappear, and of
  each room that was left every member who stays and is connected, and nobody else, gets one
  \<^verbatim>\<open>participant_left\<close> event for it. Doing it again changes nothing.
\<close>

theorem disconnect_cleans_up:
  assumes J: "nlohmann_json J utf8 ok elements bool_of" and ready: "ready utf8 r n s"
    and reg: "registered (heap n s)" and pid: "pid = participant_id (heap n s)"
    and run: "RemoveFromRegistry (mem_ops ord) J s r n = (r', n')"
  shows "InMemory_lookup r' = store_leave_all pid (InMemory_lookup r) \<and> memory_ok utf8 r'
    \<and> SessionRegistry_Find pid (registry n') = None \<and> \<not> registered (heap n' s)
    \<and> RemoveFromRegistry (mem_ops ord) J s r' n' = (r', n')
    \<and> (\<exists>codes text_of. distinct codes \<and> set codes = {code. in_store pid code (InMemory_lookup r)}
        \<and> (\<forall>code \<in> set codes. EncodeEvent J (LeftRoomEvent code pid (remaining pid (InMemory_lookup r) code))
              = Inr (text_of code))
        \<and> n' = post_all (concat (map (\<lambda>code. map (\<lambda>t. (t, text_of code))
              (recipients (registry n') None (remaining pid (InMemory_lookup r) code))) codes)) (unregister s n))"
proof -
  from ready have "buzzweb_server.repo_ok InMemory_lookup InMemory_invar utf8 r"
    by (simp add: ready_def memory_repo_ok [OF J])
  note repo = buzzweb_server.RemoveFromRegistry_repo [OF memory_server [OF J] this, of ord s n]
  have gone: "\<not> registered (heap n' s)" "SessionRegistry_Find pid (registry n') = None"
    using RemoveFromRegistry_effect(1,3) [where ops = "mem_ops ord" and J = J and s = s and r = r and n = n] reg run
    by (simp_all add: pid net_defs)
  then have again: "RemoveFromRegistry (mem_ops ord) J s r' n' = (r', n')" by (simp add: RemoveFromRegistry_def)
  have store: "InMemory_lookup r' = store_leave_all pid (InMemory_lookup r)" "memory_ok utf8 r'"
    using repo run reg by (simp_all add: memory_repo_ok [OF J] pid)
  obtain codes text_of where "distinct codes" "set codes = {code. in_store pid code (InMemory_lookup r)}"
    "\<forall>code \<in> set codes. EncodeEvent J (LeftRoomEvent code pid (remaining pid (InMemory_lookup r) code)) = Inr (text_of code)"
    "n' = post_all (concat (map (\<lambda>code. map (\<lambda>t. (t, text_of code))
       (recipients (registry n') None (remaining pid (InMemory_lookup r) code))) codes)) (unregister s n)"
    by (rule disconnect_posts [OF assms]) blast
  then show ?thesis
    using gone again store by (intro conjI exI [of _ codes] exI [of _ text_of])
qed

theorem disconnect_cleans_up_witness:
  "\<exists>r' n'. RemoveFromRegistry (mem_ops reverse_order) text_api 0 demo_pair
       (modify 0 (\<lambda>x. x\<lparr>registered := True\<rparr>) demo_net) = (r', n')
     \<and> (\<forall>code. \<not> in_store ''p_2'' code (InMemory_lookup r')) \<and> SessionRegistry_Find ''p_2'' (registry n') = None"
proof -
  let ?n = "modify 0 (\<lambda>x. x\<lparr>registered := True\<rparr>) demo_net"
  obtain r' n' where run: "RemoveFromRegistry (mem_ops reverse_order) text_api 0 demo_pair ?n = (r', n')" by fastforce
  have "ready valid_utf8 demo_pair ?n 0" using demo_pair_ready [of 0] by (simp add: ready_def)
  moreover have "registered (heap ?n 0)" "''p_2'' = participant_id (heap ?n 0)" by (simp_all add: demo_net_def)
  ultimately show ?thesis
    using disconnect_cleans_up [OF text_json.nlohmann_json_axioms _ _ _ run, of "''p_2''"] run store_leave_all_absent
    by auto
qed

end
