(* ===== verification/Config.thy ===== *)
theory Config
  imports Base
begin

text \<open>
  Configuration from the environment: src/util/Env.cpp, src/util/Config.cpp and the
  \<^verbatim>\<open>ServerConfig\<close> of include/buzzweb/net/Server.hpp. The environment of the process is a map
  from names to values. \<^verbatim>\<open>std::stoi\<close> is written out as the C++ standard describes it
  (\<^verbatim>\<open>strtol\<close> in base ten, a 32-bit \<^verbatim>\<open>int\<close>), because how the port is read depends on it:
  white space in front and text behind the number are ignored, and the cast to
  \<^verbatim>\<open>unsigned short\<close> keeps the lowest sixteen bits.
\<close>

section \<open>Environment variables\<close>

type_synonym environment = "string \<rightharpoonup> string"

definition GetEnv :: "environment \<Rightarrow> string \<Rightarrow> exn + string" where
  "GetEnv env name =
     (case env name of
        Some val \<Rightarrow> Inr val
      | None \<Rightarrow> Inl (runtime_error ''getenv_error''))"

definition GetEnvOptional :: "environment \<Rightarrow> string \<Rightarrow> string option" where
  "GetEnvOptional env name =
     (case env name of
        Some val \<Rightarrow> Some val
      | None \<Rightarrow> None)"

section \<open>Numbers\<close>

definition is_space :: "char \<Rightarrow> bool" where
  "is_space c \<longleftrightarrow> (of_char c :: nat) \<in> {9, 10, 11, 12, 13, 32}"

definition decimal_digit :: "char \<Rightarrow> bool" where
  "decimal_digit c \<longleftrightarrow> c \<in> set ''0123456789''"

text \<open>The number at the beginning of a text, or \<open>None\<close> when there is none.\<close>

definition strtol :: "string \<Rightarrow> int option" where
  "strtol s =
     (let rest = dropWhile is_space s;
          negative = (rest \<noteq> [] \<and> hd rest = CHR ''-'');
          signed = (rest \<noteq> [] \<and> (hd rest = CHR ''-'' \<or> hd rest = CHR ''+''));
          digits = takeWhile decimal_digit (if signed then tl rest else rest);
          magnitude = int (read_base 10 digits)
      in if digits = [] then None else Some (if negative then - magnitude else magnitude))"

definition stoi :: "string \<Rightarrow> exn + int" where
  "stoi s =
     (case strtol s of
        None \<Rightarrow> Inl (invalid_argument ''stoi'')
      | Some v \<Rightarrow>
          if v < - (2 ^ 31) \<or> v \<ge> 2 ^ 31 then Inl (out_of_range ''stoi'') else Inr v)"

section \<open>The configuration\<close>

record ServerConfig =
  port :: "16 word"
  certificate_file :: string
  private_key_file :: string
  config_tls :: bool

definition DEFAULT_PORT :: "16 word" where
  "DEFAULT_PORT = 9291"

definition LoadConfig :: "environment \<Rightarrow> exn + ServerConfig" where
  "LoadConfig env =
     (let tls_required = (case GetEnvOptional env ''BUZZWEB_TLS_ENABLED'' of
            None \<Rightarrow> True
          | Some v \<Rightarrow> \<not> (v = ''0'' \<or> v = ''FALSE'' \<or> v = ''false''))
      in andThen (case GetEnvOptional env ''BUZZWEB_SERVER_PORT'' of
             Some s \<Rightarrow> andThen (stoi s) (\<lambda>v. Inr (word_of_int v))
           | None \<Rightarrow> Inr DEFAULT_PORT) (\<lambda>p.
         if tls_required
         then andThen (GetEnv env ''BUZZWEB_CERTIFICATE_FILE_PATH'') (\<lambda>cert.
              andThen (GetEnv env ''BUZZWEB_PRIVATE_KEY_PATH'') (\<lambda>key.
                Inr \<lparr>port = p, certificate_file = cert, private_key_file = key, config_tls = True\<rparr>))
         else Inr \<lparr>port = p, certificate_file = [], private_key_file = [], config_tls = False\<rparr>))"

section \<open>Reading numbers\<close>

lemma show_decimal_digits: "list_all decimal_digit (show_base 10 n)"
  using set_show_base [of 10 n] by (simp add: list_all_iff decimal_digit_def subset_iff)

lemma show_base_not_Nil [simp]: "show_base b n \<noteq> []"
  by (cases "b < 2 \<or> n < b") (simp_all add: show_base.simps [of b n])

lemma decimal_digit_simps: "decimal_digit c \<Longrightarrow> \<not> is_space c" "decimal_digit c \<Longrightarrow> c \<noteq> CHR ''-''"
  "decimal_digit c \<Longrightarrow> c \<noteq> CHR ''+''"
  by (auto simp: decimal_digit_def is_space_def)

lemma takeWhile_digits:
  assumes "list_all decimal_digit ds" and "rest = [] \<or> \<not> decimal_digit (hd rest)"
  shows "takeWhile decimal_digit (ds @ rest) = ds"
  using assms by (cases rest) (auto simp: list_all_iff takeWhile_append2)

lemma dropWhile_spaces:
  assumes "list_all is_space ws" and "s = [] \<or> \<not> is_space (hd s)"
  shows "dropWhile is_space (ws @ s) = s"
  using assms by (cases s) (auto simp: list_all_iff dropWhile_append2)

text \<open>A number is read back whatever white space precedes and whatever text follows it.\<close>

lemma strtol_show:
  assumes ws: "list_all is_space ws" and rest: "rest = [] \<or> \<not> decimal_digit (hd rest)"
  shows "strtol (ws @ show_base 10 n @ rest) = Some (int n)"
    and "strtol (ws @ CHR ''-'' # show_base 10 n @ rest) = Some (- int n)"
proof -
  obtain d ds where d: "show_base 10 n = d # ds" by (metis show_base_not_Nil neq_Nil_conv)
  then have digit: "decimal_digit d" using show_decimal_digits [of n] by simp
  note digits = takeWhile_digits [OF show_decimal_digits rest, of n]
  have val: "read_base 10 (show_base 10 n) = n" by (rule read_show_base) simp_all
  have "dropWhile is_space (ws @ show_base 10 n @ rest) = show_base 10 n @ rest"
    by (rule dropWhile_spaces [OF ws]) (simp add: d decimal_digit_simps [OF digit])
  moreover have "hd (show_base 10 n @ rest) = d" by (simp add: d)
  ultimately show "strtol (ws @ show_base 10 n @ rest) = Some (int n)"
    using digits val by (simp add: strtol_def Let_def decimal_digit_simps [OF digit])
  have "dropWhile is_space (ws @ CHR ''-'' # show_base 10 n @ rest) = CHR ''-'' # show_base 10 n @ rest"
    by (rule dropWhile_spaces [OF ws]) (simp add: is_space_def)
  then show "strtol (ws @ CHR ''-'' # show_base 10 n @ rest) = Some (- int n)"
    using digits val by (simp add: strtol_def Let_def)
qed

lemma strtol_no_digit:
  assumes "list_all (\<lambda>c. \<not> decimal_digit c) s"
  shows "strtol s = None"
proof -
  have none: "takeWhile decimal_digit u = []" if "set u \<subseteq> set s" for u
    using assms that by (cases u) (auto simp: list_all_iff)
  have sub: "set (dropWhile is_space s) \<subseteq> set s" "set (tl (dropWhile is_space s)) \<subseteq> set s"
    using set_dropWhileD [of _ is_space s] list.set_sel(2) [of "dropWhile is_space s"]
    by (auto, cases "dropWhile is_space s", auto)
  show ?thesis using none [OF sub(1)] none [OF sub(2)] by (simp add: strtol_def Let_def)
qed

lemma LoadConfig_port_value:
  assumes "LoadConfig env = Inr c"
  shows "case env ''BUZZWEB_SERVER_PORT'' of
      None \<Rightarrow> port c = DEFAULT_PORT
    | Some s \<Rightarrow> (\<exists>v. strtol s = Some v \<and> - (2 ^ 31) \<le> v \<and> v < 2 ^ 31 \<and> port c = word_of_int v)"
  using assms
  by (auto simp: LoadConfig_def Let_def GetEnvOptional_def andThen_Inr_iff stoi_def not_less
      split: option.splits if_splits)

text \<open>Does the environment ask for TLS?\<close>

definition tls_wanted :: "environment \<Rightarrow> bool" where
  "tls_wanted env \<longleftrightarrow> env ''BUZZWEB_TLS_ENABLED'' \<notin> Some ` {''0'', ''FALSE'', ''false''}"

lemma LoadConfig_tls:
  assumes "LoadConfig env = Inr c"
  shows "config_tls c = tls_wanted env"
    and "config_tls c \<Longrightarrow> env ''BUZZWEB_CERTIFICATE_FILE_PATH'' = Some (certificate_file c)
      \<and> env ''BUZZWEB_PRIVATE_KEY_PATH'' = Some (private_key_file c)"
  using assms
  by (auto simp: LoadConfig_def Let_def GetEnvOptional_def GetEnv_def andThen_Inr_iff tls_wanted_def
      split: option.splits if_splits)

section \<open>Properties\<close>

text \<open>
  C38. How the port is read. A decimal number up to the largest 32-bit \<^verbatim>\<open>int\<close>, with white
  space in front and any text that does not start with a digit behind, is taken modulo 65536, so
  every valid port number is read back exactly and a larger one silently becomes another port; a
  negative number wraps as well; a number that no \<^verbatim>\<open>int\<close> holds and a text without a number
  are refused. The result never depends on the other variables, as long as these are accepted.
\<close>

theorem LoadConfig_port:
  assumes "list_all is_space ws" and "rest = [] \<or> \<not> decimal_digit (hd rest)"
    and "env ''BUZZWEB_SERVER_PORT'' = Some (ws @ sign @ show_base 10 n @ rest)"
    and "sign = [] \<or> sign = ''-''"
  shows "(LoadConfig env = Inr c \<longrightarrow>
        uint (port c) = (if sign = [] then int n else - int n) mod 65536
        \<and> (sign = [] \<longrightarrow> n < 65536 \<longrightarrow> port c = of_nat n))
    \<and> (sign = [] \<and> n \<ge> 2 ^ 31 \<or> sign = ''-'' \<and> n > 2 ^ 31 \<longrightarrow> LoadConfig env = Inl (out_of_range ''stoi''))
    \<and> (list_all (\<lambda>c. \<not> decimal_digit c) s \<longrightarrow>
        LoadConfig (env(''BUZZWEB_SERVER_PORT'' := Some s)) = Inl (invalid_argument ''stoi''))"
proof -
  have v: "strtol (ws @ sign @ show_base 10 n @ rest) = Some (if sign = [] then int n else - int n)"
    using assms(4) strtol_show [OF assms(1,2), of n] by auto
  have "uint (port c) = (if sign = [] then int n else - int n) mod 65536
      \<and> (sign = [] \<longrightarrow> n < 65536 \<longrightarrow> port c = of_nat n)" if "LoadConfig env = Inr c"
    using LoadConfig_port_value [OF that] assms(3) v by (auto simp: uint_word_of_int)
  moreover have "LoadConfig env = Inl (out_of_range ''stoi'')"
    if "sign = [] \<and> n \<ge> 2 ^ 31 \<or> sign = ''-'' \<and> n > 2 ^ 31"
    using that assms(3) v by (auto simp: LoadConfig_def Let_def GetEnvOptional_def stoi_def)
  moreover have "LoadConfig (env(''BUZZWEB_SERVER_PORT'' := Some s)) = Inl (invalid_argument ''stoi'')"
    if "list_all (\<lambda>c. \<not> decimal_digit c) s"
    using strtol_no_digit [OF that] by (simp add: LoadConfig_def Let_def GetEnvOptional_def stoi_def)
  ultimately show ?thesis by blast
qed

theorem LoadConfig_port_witness:
  "\<exists>c. LoadConfig [''BUZZWEB_TLS_ENABLED'' \<mapsto> ''0'', ''BUZZWEB_SERVER_PORT'' \<mapsto> '' 70000/tcp''] = Inr c
     \<and> uint (port c) = 4464"
proof -
  let ?env = "[''BUZZWEB_TLS_ENABLED'' \<mapsto> ''0'', ''BUZZWEB_SERVER_PORT'' \<mapsto> '' 70000/tcp'']"
  have val: "?env ''BUZZWEB_SERVER_PORT'' = Some ('' '' @ [] @ show_base 10 70000 @ ''/tcp'')"
    by (simp add: show_base.simps digit_char_def)
  have "strtol '' 70000/tcp'' = Some 70000"
    by (simp add: strtol_def is_space_def decimal_digit_def read_base_def digit_val_def Let_def)
  then obtain c where c: "LoadConfig ?env = Inr c"
    by (simp add: LoadConfig_def Let_def GetEnvOptional_def stoi_def)
  have "list_all is_space '' ''" "''/tcp'' = [] \<or> \<not> decimal_digit (hd ''/tcp'')"
    by (simp_all add: is_space_def decimal_digit_def)
  from LoadConfig_port [where env = ?env and sign = "[]" and n = 70000 and c = c, OF this val] c show ?thesis by simp
qed

end
