(* ===== verification/Logging.thy ===== *)
theory Logging
  imports Base
begin

text \<open>
  The set-up of the logging library in src/main.cpp (\<^verbatim>\<open>ConfigureLogging\<close>) and the records that
  \<^verbatim>\<open>main\<close> and \<^verbatim>\<open>Server::Run\<close> write. The library itself is a list of the calls it got;
  which of its set-up calls fail, and with which text, is up to the machine.
\<close>

datatype Severity = SevInfo | SevError

datatype LogCall =
    AddConsoleLog
  | AddCommonAttributes
  | SetFilter Severity
  | LogRecord Severity string

record LogState =
  configured :: bool
  log_calls :: "LogCall list"

definition LogState_new :: LogState where
  "LogState_new = \<lparr>configured = False, log_calls = []\<rparr>"

text \<open>The text of an exception; that of \<^verbatim>\<open>std::bad_variant_access\<close> is the library's.\<close>

fun exn_what :: "exn \<Rightarrow> string" where
  "exn_what (invalid_argument w) = w"
| "exn_what (out_of_range w) = w"
| "exn_what (runtime_error w) = w"
| "exn_what (other_exception w) = w"
| "exn_what bad_variant_access = ''std::get: wrong index for variant''"

definition log_line :: "Severity \<Rightarrow> string \<Rightarrow> LogState \<Rightarrow> LogState" where
  "log_line severity line log = log\<lparr>log_calls := log_calls log @ [LogRecord severity line]\<rparr>"

text \<open>
  \<^verbatim>\<open>std::call_once\<close>: the flag is set when the function returns, and not when it throws, so
  that the next caller tries again.
\<close>

definition call_once :: "(LogState \<Rightarrow> exn option \<times> LogState) \<Rightarrow> LogState \<Rightarrow> exn option \<times> LogState" where
  "call_once f log =
     (if configured log then (None, log)
      else case f log of
        (None, log') \<Rightarrow> (None, log'\<lparr>configured := True\<rparr>)
      | (Some ex, log') \<Rightarrow> (Some ex, log'))"

fun log_setup :: "(LogCall \<Rightarrow> string option) \<Rightarrow> LogCall list \<Rightarrow> LogState \<Rightarrow> exn option \<times> LogState" where
  "log_setup sys [] log = (None, log)"
| "log_setup sys (c # cs) log =
     (case sys c of
        Some e \<Rightarrow> (Some (other_exception e), log)
      | None \<Rightarrow> log_setup sys cs (log\<lparr>log_calls := log_calls log @ [c]\<rparr>))"

definition ConfigureLogging :: "(LogCall \<Rightarrow> string option) \<Rightarrow> LogState \<Rightarrow> exn option \<times> LogState" where
  "ConfigureLogging sys = call_once (log_setup sys [AddConsoleLog, AddCommonAttributes, SetFilter SevInfo])"

section \<open>The set-up is made once\<close>

definition set_up :: "LogCall list" where
  "set_up = [AddConsoleLog, AddCommonAttributes, SetFilter SevInfo]"

lemma log_line_sel [simp]:
  "log_calls (log_line sev t log) = log_calls log @ [LogRecord sev t]"
  "configured (log_line sev t log) = configured log"
  by (simp_all add: log_line_def)

lemma LogState_new_sel [simp]: "log_calls LogState_new = []" "\<not> configured LogState_new"
  by (simp_all add: LogState_new_def)

lemma log_setup_ok:
  "fst (log_setup sys cs log) = None \<longleftrightarrow> (\<forall>c \<in> set cs. sys c = None)"
  "\<forall>c \<in> set cs. sys c = None \<Longrightarrow> log_setup sys cs log = (None, log\<lparr>log_calls := log_calls log @ cs\<rparr>)"
  by (induction cs arbitrary: log) (auto split: option.splits)

lemma ConfigureLogging_ok:
  "fst (ConfigureLogging sys log) = None \<longleftrightarrow> configured log \<or> (\<forall>c \<in> set set_up. sys c = None)"
  unfolding ConfigureLogging_def call_once_def set_up_def
  using log_setup_ok(1) [of sys "[AddConsoleLog, AddCommonAttributes, SetFilter SevInfo]" log]
  by (auto split: prod.splits option.splits)

lemma ConfigureLogging_new:
  assumes "\<forall>c \<in> set set_up. sys c = None"
  shows "ConfigureLogging sys LogState_new = (None, \<lparr>configured = True, log_calls = set_up\<rparr>)"
  using assms by (simp add: ConfigureLogging_def call_once_def set_up_def LogState_new_def)

lemma ConfigureLogging_again: "configured log \<Longrightarrow> ConfigureLogging sys log = (None, log)"
  by (simp add: ConfigureLogging_def call_once_def)

text \<open>However often it is called, the library is set up exactly once, at the first call that succeeds.\<close>

lemma ConfigureLogging_once:
  assumes "\<forall>c \<in> set set_up. sys c = None"
  shows "((\<lambda>log. snd (ConfigureLogging sys log)) ^^ Suc n) LogState_new = \<lparr>configured = True, log_calls = set_up\<rparr>"
  by (induction n) (simp_all add: ConfigureLogging_new [OF assms] ConfigureLogging_again)

lemma ConfigureLogging_flag: "fst (ConfigureLogging sys log) = None \<longleftrightarrow> configured (snd (ConfigureLogging sys log))"
proof (cases "configured log")
  case False
  have "configured (snd (log_setup sys cs l)) = configured l" for cs l
    by (induction cs arbitrary: l) (auto split: option.splits)
  with False show ?thesis
    by (auto simp: ConfigureLogging_def call_once_def split: prod.splits option.splits)
qed (simp add: ConfigureLogging_again)

end
