(* ===== verification/Startup.thy ===== *)
theory Startup
  imports Runtime Config Logging
begin

text \<open>
  From the command line to the running server: the constructor of \<^verbatim>\<open>Server\<close>
  (src/net/Server.cpp) and \<^verbatim>\<open>main\<close> (src/main.cpp). What the operating system and the TLS library
  answer is a record of functions that name the error of a failing call.

  The properties connect the configuration with the running server of theory \<open>Runtime\<close>: when the
  program starts at all, and that with TLS no client is heard before its handshake.
\<close>

section \<open>The server object\<close>

datatype TlsCall =
    SetOptions
  | UseCertificateChainFile string
  | UsePrivateKeyFile string

record Platform =
  tls_call :: "TlsCall \<Rightarrow> string option"
  acceptor_call :: "16 word \<Rightarrow> AcceptorCall \<Rightarrow> string option"
  log_call :: "LogCall \<Rightarrow> string option"

record Server =
  config :: ServerConfig
  server_listener :: Listener

definition ConfigureTls :: "Platform \<Rightarrow> ServerConfig \<Rightarrow> exn + unit" where
  "ConfigureTls P c =
     (case first_error (tls_call P)
        [SetOptions, UseCertificateChainFile (certificate_file c), UsePrivateKeyFile (private_key_file c)] of
        Some e \<Rightarrow> Inl (runtime_error e)
      | None \<Rightarrow> Inr ())"

definition Server_new :: "Platform \<Rightarrow> ServerConfig \<Rightarrow> exn + Server" where
  "Server_new P c =
     andThen (if config_tls c then ConfigureTls P c else Inr ()) (\<lambda>_.
     andThen (Listener_new (acceptor_call P (port c)) (config_tls c)) (\<lambda>l.
       Inr \<lparr>config = c, server_listener = l\<rparr>))"

section \<open>The program\<close>

text \<open>
  \<^verbatim>\<open>main\<close> returns \<^verbatim>\<open>EXIT_FAILURE\<close>, is ended by an exception that nobody catches, or enters
  \<^verbatim>\<open>Server::Run\<close>. The repository and the registry start empty.
\<close>

datatype 'w outcome = ExitFailure | Terminated exn | Running 'w

definition listening_line :: "ServerConfig \<Rightarrow> string" where
  "listening_line c =
     (if config_tls c then ''WSS'' else ''WS'') @ '' server listening on port '' @ show_base 10 (unat (port c))"

definition main :: "environment \<Rightarrow> Platform \<Rightarrow> LogState \<Rightarrow> InMemoryRoomRepository World outcome \<times> LogState" where
  "main env P log0 =
     (case ConfigureLogging (log_call P) log0 of
        (Some ex, log) \<Rightarrow> (Terminated ex, log)
      | (None, log) \<Rightarrow>
          (let log1 = log_line SevInfo ''Loading config...'' log
           in case LoadConfig env of
                Inl ex \<Rightarrow> (ExitFailure, log_line SevError (''Couldn't load config: '' @ exn_what ex) log1)
              | Inr c \<Rightarrow>
                  (let log2 = log_line SevInfo ''Starting BuzzWeb Server...'' (log_line SevInfo ''Config loaded!'' log1)
                   in case Server_new P c of
                        Inl ex \<Rightarrow> (Terminated ex, log2)
                      | Inr server \<Rightarrow>
                          (Running (Server_Run (server_listener server) InMemory_new),
                           log_line SevInfo (listening_line (config server)) log2))))"

section \<open>Sessions and TLS\<close>

text \<open>A session on which the WebSocket protocol has begun.\<close>

definition begun :: "Session \<Rightarrow> bool" where
  "begun x \<longleftrightarrow> registered x \<or> AsyncAccept \<in> set (pending x) \<or> AsyncRead \<in> set (pending x)"

lemma begun_flags [simp]:
  "begun (x\<lparr>write_queue := q\<rparr>) = begun x" "begun (x\<lparr>closing := b\<rparr>) = begun x"
  "begun (x\<lparr>is_open := b\<rparr>) = begun x" "begun (x\<lparr>wire := ts\<rparr>) = begun x"
  "begun (x\<lparr>pending := pending x @ [AsyncWrite t]\<rparr>) = begun x"
  "begun (x\<lparr>pending := pending x @ [AsyncClose]\<rparr>) = begun x"
  by (simp_all add: begun_def)

lemma in_remove1: "op \<in> set (remove1 op' ops) \<Longrightarrow> op \<in> set ops"
  by (meson notin_set_remove1)

lemma event_listener:
  assumes "handle_event ops J e w = Some (None, w')"
  shows "tls_enabled (listener w') = tls_enabled (listener w)"
  using assms
  by (cases e) (auto simp: handle_event_def on_net_def Listener_Stop_def OnAccept_def AcceptNext_def Let_def
      case_prod_beta split: if_splits list.splits option.splits)

text \<open>Whether a session is a TLS session is settled when it is made.\<close>

lemma event_ssl:
  assumes "handle_event ops J e w = Some (None, w')"
  shows "is_ssl (heap (net w') s) = (if next_address (net w) = s \<and> next_address (net w') \<noteq> s
    then tls_enabled (listener w) else is_ssl (heap (net w) s))"
  using assms
proof (cases rule: event_cases)
  case (read s' result draws)
  then show ?thesis using OnRead_frame [OF read(3), of s] by simp
qed (auto simp: handler_effects split: Task.splits)

text \<open>The WebSocket protocol of a TLS session begins with the end of its handshake.\<close>

lemma OnRead_begun:
  assumes "OnRead ops J draws s result r (finish_async s AsyncRead n) = (None, r', n')"
    and "AsyncRead \<in> set (pending (heap n s))" and "begun (heap n' s')"
  shows "begun (heap n s')"
proof (cases "s' = s")
  case True
  with assms(2) show ?thesis by (simp add: begun_def)
next
  case False
  have "heap n' s' = heap n s'"
    using assms(1)
  proof (cases rule: OnRead_cases)
    case closed
    then have "n' = snd (RemoveFromRegistry ops J s r (finish_async s AsyncRead n))" by simp
    with False show ?thesis by simp
  next
    case error
    then have "n' = snd (Fail ops J s r (finish_async s AsyncRead n))" by simp
    with False show ?thesis by simp
  qed (use False in \<open>simp add: ReadNext_def\<close>)
  with assms(3) show ?thesis by simp
qed

lemma event_begun:
  assumes "handle_event ops J e w = Some (None, w')" and "begun (heap (net w') s)"
  shows "begun (heap (net w) s) \<or> e = HandshakeDone s False
    \<or> next_address (net w) = s \<and> \<not> is_ssl (heap (net w') s)"
  using assms(1)
proof (cases rule: event_cases)
  case (read s' result draws)
  then show ?thesis using OnRead_begun [OF read(3,2) assms(2)] by simp
next
  case (task task tasks)
  with assms(2) show ?thesis
    by (cases task) (auto simp: handler_effects begun_def failed_def split: if_splits)
next
  case (written s' error t)
  with assms(2) show ?thesis
    by (auto simp: handler_effects begun_def failed_def split: if_splits dest: in_remove1)
qed (use assms(2) in \<open>auto simp: handler_effects begun_def failed_def split: if_splits dest: in_remove1\<close>)

text \<open>
  The server keeps listening: a registered session has a read in progress, and while the server has
  not been stopped, the listener has its acceptor open and one accept in progress.
\<close>

definition listening :: "'r World \<Rightarrow> bool" where
  "listening w \<longleftrightarrow>
     (\<forall>s. registered (heap (net w) s) \<longrightarrow> AsyncRead \<in> set (pending (heap (net w) s)))
     \<and> (stopped w \<or> acceptor_open (listener w) \<and> accepts (listener w) = 1)"

lemma event_reads:
  assumes "handle_event ops J e w = Some (None, w')"
    and "\<And>s. registered (heap (net w) s) \<Longrightarrow> AsyncRead \<in> set (pending (heap (net w) s))"
    and "registered (heap (net w') s)"
  shows "AsyncRead \<in> set (pending (heap (net w') s))"
  using assms(1)
proof (cases rule: event_cases)
  case (read s' result draws)
  from read(3) show ?thesis
  proof (cases rule: OnRead_cases)
    case closed
    then have "net w' = snd (RemoveFromRegistry ops J s' (repository w) (finish_async s' AsyncRead (net w)))" by simp
    with assms(2,3) show ?thesis by (auto split: if_splits)
  next
    case error
    then have "net w' = snd (Fail ops J s' (repository w) (finish_async s' AsyncRead (net w)))" by simp
    with assms(2,3) show ?thesis by (auto simp: failed_def split: if_splits)
  next
    case message
    with assms(2,3) show ?thesis by (auto simp: ReadNext_def split: if_splits)
  qed
next
  case (task task tasks)
  with assms(2,3) show ?thesis by (cases task) (auto simp: handler_effects failed_def split: if_splits)
qed (use assms(2,3) in \<open>auto simp: handler_effects failed_def in_set_remove1 split: if_splits\<close>)

lemma event_accepts:
  assumes "handle_event ops J e w = Some (None, w')"
    and "acceptor_open (listener w) \<and> accepts (listener w) = 1"
  shows "stopped w' \<or> acceptor_open (listener w') \<and> accepts (listener w') = 1"
  using assms
  by (cases e) (auto simp: handle_event_def on_net_def OnAccept_def AcceptNext_def Let_def
      case_prod_beta split: if_splits list.splits option.splits)

lemma event_listening:
  assumes "handle_event ops J e w = Some (None, w')" and "listening w"
  shows "listening w'"
proof -
  have "\<not> stopped w" using assms(1) by (auto simp: handle_event_def Let_def)
  with assms(2) have "acceptor_open (listener w) \<and> accepts (listener w) = 1" by (simp add: listening_def)
  from event_accepts [OF assms(1) this] event_reads [OF assms(1)] assms(2) show ?thesis
    by (simp add: listening_def)
qed

lemma reachable_listening: "reachable ops J ev w0 w \<Longrightarrow> listening w0 \<Longrightarrow> listening w"
  by (induction rule: reachable.induct) (auto intro: event_listening)

definition tls_inv :: "bool \<Rightarrow> Event list \<Rightarrow> 'r World \<Rightarrow> bool" where
  "tls_inv tls es w \<longleftrightarrow> tls_enabled (listener w) = tls
     \<and> (\<forall>s < next_address (net w). is_ssl (heap (net w) s) = tls)
     \<and> (tls \<longrightarrow> (\<forall>s. begun (heap (net w) s) \<longrightarrow> HandshakeDone s False \<in> set es))"

lemma event_allocates:
  assumes "handle_event ops J e w = Some (None, w')"
  shows "next_address (net w') = next_address (net w) \<or> next_address (net w') = Suc (next_address (net w))"
  using assms
proof (cases rule: event_cases)
  case (read s result draws)
  then show ?thesis using OnRead_frame [OF read(3)] by simp
qed (auto simp: handler_effects split: Task.splits)

lemma net_ok_begun:
  assumes "net_ok n" and "begun (heap n s)"
  shows "s < next_address n"
proof (rule ccontr)
  assume "\<not> ?thesis"
  then have "dormant (heap n s)" using net_ok_dormant [OF assms(1)] by simp
  with assms(2) show False by (auto simp: dormant_def begun_def filter_empty_conv)
qed

lemma tls_inv_event:
  assumes ok: "net_ok (net w')" and inv: "tls_inv tls es w" and ev: "handle_event ops J e w = Some (None, w')"
  shows "tls_inv tls (es @ [e]) w'"
proof -
  have ssl: "is_ssl (heap (net w') s) = tls" if "s < next_address (net w')" for s
    using that inv event_ssl [OF ev, of s] event_allocates [OF ev] by (auto simp: tls_inv_def less_Suc_eq)
  have "HandshakeDone s False \<in> set (es @ [e])" if tls and begun: "begun (heap (net w') s)" for s
  proof -
    have "s < next_address (net w')" using net_ok_begun [OF ok begun] .
    with ssl \<open>tls\<close> have "is_ssl (heap (net w') s)" by simp
    with event_begun [OF ev begun] inv \<open>tls\<close> show ?thesis by (auto simp: tls_inv_def)
  qed
  with ssl inv event_listener [OF ev] show ?thesis by (simp add: tls_inv_def)
qed

lemma run_events_tls:
  assumes "run_events ops J es (Server_Run l r) = Some w"
  shows "tls_inv (tls_enabled l) es w \<and> net_ok (net w)"
  using assms
proof (induction es arbitrary: w rule: rev_induct)
  case Nil
  then show ?case
    using Server_Run_ok [of l r]
    by (auto simp: tls_inv_def Server_Run_def net_start_def Listener_Start_def AcceptNext_def begun_def Session_new_def)
next
  case (snoc e es)
  then obtain w1 where "run_events ops J es (Server_Run l r) = Some w1" "handle_event ops J e w1 = Some (None, w)"
    by (auto simp: run_events_append split: option.splits prod.splits)
  with snoc.IH show ?case using tls_inv_event event_keeps_net_ok by blast
qed

lemma all_acceptor_calls:
  "(\<forall>call. f call = None) \<longleftrightarrow>
     f AcceptorOpen = None \<and> f AcceptorReuseAddress = None \<and> f AcceptorBind = None \<and> f AcceptorListen = None"
  by (metis AcceptorCall.exhaust)

lemma Listener_new_iff:
  "Listener_new sys tls = Inr l \<longleftrightarrow>
     (\<forall>call. sys call = None) \<and> l = \<lparr>acceptor_open = True, tls_enabled = tls, accepts = 0\<rparr>"
  unfolding all_acceptor_calls by (auto simp: Listener_new_def split: option.splits)

lemma ConfigureTls_iff:
  "ConfigureTls P c = Inr () \<longleftrightarrow> tls_call P SetOptions = None
     \<and> tls_call P (UseCertificateChainFile (certificate_file c)) = None
     \<and> tls_call P (UsePrivateKeyFile (private_key_file c)) = None"
  by (auto simp: ConfigureTls_def split: option.splits)

text \<open>The calls that set up the logging library succeed.\<close>

definition logging_works :: "Platform \<Rightarrow> bool" where
  "logging_works P \<longleftrightarrow> (\<forall>c \<in> set set_up. log_call P c = None)"

lemma main_logging_fails:
  assumes "\<not> logging_works P"
  obtains ex log where "main env P LogState_new = (Terminated ex, log)"
proof -
  have "fst (ConfigureLogging (log_call P) LogState_new) \<noteq> None"
    using assms by (simp add: ConfigureLogging_ok logging_works_def)
  then obtain ex log where "ConfigureLogging (log_call P) LogState_new = (Some ex, log)"
    by (metis not_None_eq prod.collapse)
  then show ?thesis by (intro that [of ex log]) (simp add: main_def)
qed

lemma main_Running_iff:
  "fst (main env P LogState_new) = Running w \<longleftrightarrow>
     logging_works P \<and> (\<exists>c. LoadConfig env = Inr c \<and> (config_tls c \<longrightarrow> ConfigureTls P c = Inr ())
        \<and> (\<forall>call. acceptor_call P (port c) call = None)
        \<and> w = Server_Run \<lparr>acceptor_open = True, tls_enabled = config_tls c, accepts = 0\<rparr> InMemory_new)"
proof -
  have "Server_new P c = Inr server \<longleftrightarrow> (config_tls c \<longrightarrow> ConfigureTls P c = Inr ())
      \<and> (\<forall>call. acceptor_call P (port c) call = None)
      \<and> server = \<lparr>config = c, server_listener = \<lparr>acceptor_open = True, tls_enabled = config_tls c, accepts = 0\<rparr>\<rparr>"
    for c server
    by (auto simp: Server_new_def andThen_Inr_iff Listener_new_iff)
  moreover have "fst (main env P LogState_new) = Running w \<longleftrightarrow> (\<exists>c server. LoadConfig env = Inr c
      \<and> Server_new P c = Inr server \<and> w = Server_Run (server_listener server) InMemory_new)" if "logging_works P"
    using ConfigureLogging_new [of "log_call P"] that
    by (auto simp: main_def logging_works_def Let_def split: sum.splits)
  ultimately show ?thesis
    by (cases "logging_works P") (auto elim: main_logging_fails [of P env])
qed

section \<open>Properties\<close>

text \<open>
  C37. The program serves exactly when the logging library can be set up, its configuration can be
  loaded, the TLS library accepts the certificate and the key (with TLS), and the acceptor can be
  opened, bound to the configured port and put to listening; then it starts with no rooms, no
  sessions and one pending accept, in the mode that the environment asks for. A configuration that
  cannot be loaded ends it with \<^verbatim>\<open>EXIT_FAILURE\<close>, after a log record that gives the reason; every
  other failure is an exception that leaves \<^verbatim>\<open>main\<close>.
\<close>

theorem main_starts:
  "(fst (main env P LogState_new) = Running w \<longleftrightarrow> logging_works P \<and>
      (\<exists>c. LoadConfig env = Inr c
         \<and> (tls_wanted env \<longrightarrow> tls_call P SetOptions = None
             \<and> (\<exists>cert key. env ''BUZZWEB_CERTIFICATE_FILE_PATH'' = Some cert
                  \<and> env ''BUZZWEB_PRIVATE_KEY_PATH'' = Some key
                  \<and> tls_call P (UseCertificateChainFile cert) = None \<and> tls_call P (UsePrivateKeyFile key) = None))
         \<and> (\<forall>call. acceptor_call P (port c) call = None)
         \<and> w = \<lparr>listener = \<lparr>acceptor_open = True, tls_enabled = tls_wanted env, accepts = 1\<rparr>,
               repository = InMemory_new, net = net_start, stopped = False\<rparr>))
   \<and> (main env P LogState_new = (ExitFailure, log) \<longleftrightarrow> logging_works P \<and> (\<exists>ex. LoadConfig env = Inl ex
        \<and> log = \<lparr>configured = True, log_calls = set_up @
            [LogRecord SevInfo ''Loading config...'', LogRecord SevError (''Couldn't load config: '' @ exn_what ex)]\<rparr>))"
proof
  show "fst (main env P LogState_new) = Running w \<longleftrightarrow> logging_works P \<and>
      (\<exists>c. LoadConfig env = Inr c
         \<and> (tls_wanted env \<longrightarrow> tls_call P SetOptions = None
             \<and> (\<exists>cert key. env ''BUZZWEB_CERTIFICATE_FILE_PATH'' = Some cert
                  \<and> env ''BUZZWEB_PRIVATE_KEY_PATH'' = Some key
                  \<and> tls_call P (UseCertificateChainFile cert) = None \<and> tls_call P (UsePrivateKeyFile key) = None))
         \<and> (\<forall>call. acceptor_call P (port c) call = None)
         \<and> w = \<lparr>listener = \<lparr>acceptor_open = True, tls_enabled = tls_wanted env, accepts = 1\<rparr>,
               repository = InMemory_new, net = net_start, stopped = False\<rparr>)"
    unfolding main_Running_iff
    by (rule conj_cong [OF refl], rule ex_cong1, rule conj_cong [OF refl])
      (use LoadConfig_tls [of env] in \<open>auto simp: ConfigureTls_iff Server_Run_def Listener_Start_def AcceptNext_def\<close>)
  show "main env P LogState_new = (ExitFailure, log) \<longleftrightarrow> logging_works P \<and> (\<exists>ex. LoadConfig env = Inl ex
        \<and> log = \<lparr>configured = True, log_calls = set_up @
            [LogRecord SevInfo ''Loading config...'', LogRecord SevError (''Couldn't load config: '' @ exn_what ex)]\<rparr>)"
  proof (cases "logging_works P")
    case True
    then show ?thesis
      using ConfigureLogging_new [of "log_call P"]
      by (auto simp: main_def logging_works_def Let_def log_line_def split: sum.splits)
  qed (auto elim: main_logging_fails [of P env])
qed

text \<open>
  C11. With TLS there is no plain-text way in: unless the environment switches TLS off, every
  session of the running server is a TLS session, and none is registered, upgraded to the WebSocket
  protocol or read from before its TLS handshake has succeeded. Without TLS, no session is one.
\<close>

theorem tls_before_messages:
  assumes "fst (main env P LogState_new) = Running w0" and "run_events ops J es w0 = Some w" and "s < next_address (net w)"
  shows "is_ssl (heap (net w) s) = tls_wanted env
    \<and> (tls_wanted env \<and> HandshakeDone s False \<notin> set es \<longrightarrow>
        \<not> registered (heap (net w) s) \<and> AsyncAccept \<notin> set (pending (heap (net w) s))
        \<and> handle_event ops J (ReadDone s result draws) w = None)"
proof -
  obtain c where c: "LoadConfig env = Inr c"
    and w0: "w0 = Server_Run \<lparr>acceptor_open = True, tls_enabled = config_tls c, accepts = 0\<rparr> InMemory_new"
    using assms(1) by (auto simp: main_Running_iff)
  have inv: "tls_inv (tls_wanted env) es w"
    using run_events_tls [OF assms(2) [unfolded w0]] LoadConfig_tls(1) [OF c] by simp
  then show ?thesis
    using assms(3) by (auto simp: tls_inv_def begun_def handle_event_def Let_def)
qed

text \<open>
  C12. The server never goes deaf: as long as it has not been stopped, whatever has happened
  before, it can accept the next connection, and it can receive the next message, end of connection
  or error of every registered session.
\<close>

theorem server_keeps_listening:
  assumes "fst (main env P LogState_new) = Running w0" and "reachable ops J ev w0 w" and "\<not> stopped w"
  shows "handle_event ops J (TcpAccepted error draw) w \<noteq> None
    \<and> (registered (heap (net w) s) \<longrightarrow> handle_event ops J (ReadDone s result draws) w \<noteq> None)"
proof -
  have "listening w0"
    using assms(1) by (auto simp: main_Running_iff listening_def Server_Run_def net_start_def Listener_Start_def
        AcceptNext_def Session_new_def)
  with assms(2) have "listening w" by (rule reachable_listening)
  with assms(3) show ?thesis by (auto simp: listening_def handle_event_def Let_def case_prod_beta)
qed

text \<open>A machine on which every call succeeds, and an environment that asks for TLS.\<close>

definition demo_platform :: Platform where
  "demo_platform = \<lparr>tls_call = (\<lambda>_. None), acceptor_call = (\<lambda>_ _. None), log_call = (\<lambda>_. None)\<rparr>"

definition demo_environment :: environment where
  "demo_environment = [''BUZZWEB_CERTIFICATE_FILE_PATH'' \<mapsto> ''server.crt'',
     ''BUZZWEB_PRIVATE_KEY_PATH'' \<mapsto> ''server.key'']"

lemma demo_config:
  "LoadConfig demo_environment = Inr \<lparr>port = DEFAULT_PORT, certificate_file = ''server.crt'',
     private_key_file = ''server.key'', config_tls = True\<rparr>"
  by (simp add: LoadConfig_def demo_environment_def GetEnvOptional_def GetEnv_def)

definition demo_tls_world :: "InMemoryRoomRepository World" where
  "demo_tls_world =
     \<lparr>listener = \<lparr>acceptor_open = True, tls_enabled = True, accepts = 1\<rparr>, repository = InMemory_new,
      net = net_start, stopped = False\<rparr>"

lemma demo_tls_wanted: "tls_wanted demo_environment"
  "demo_environment ''BUZZWEB_CERTIFICATE_FILE_PATH'' = Some ''server.crt''"
  "demo_environment ''BUZZWEB_PRIVATE_KEY_PATH'' = Some ''server.key''"
  by (simp_all add: tls_wanted_def demo_environment_def)

theorem main_starts_witness: "fst (main demo_environment demo_platform LogState_new) = Running demo_tls_world"
  by (subst conjunct1 [OF main_starts])
    (simp add: demo_config demo_tls_wanted demo_tls_world_def demo_platform_def logging_works_def)

lemma demo_main: "fst (main demo_environment demo_platform LogState_new) = Running demo_tls_world"
  by (simp add: main_Running_iff logging_works_def demo_config ConfigureTls_iff demo_platform_def demo_tls_world_def
      Server_Run_def Listener_Start_def AcceptNext_def)

theorem tls_before_messages_witness:
  "\<exists>w. run_events (mem_ops stored_order) text_api [TcpAccepted False 7] demo_tls_world = Some w
     \<and> is_ssl (heap (net w) 0) \<and> \<not> registered (heap (net w) 0)"
proof -
  obtain w where w: "run_events (mem_ops stored_order) text_api [TcpAccepted False 7] demo_tls_world = Some w"
    "next_address (net w) = 1"
    by (simp add: demo_tls_world_def handle_event_def OnAccept_def AcceptNext_def open_session_def Let_def
        net_start_def SslSession_Start_def)
  with tls_before_messages [OF demo_main w(1), of 0] show ?thesis by (simp add: demo_tls_wanted)
qed

theorem server_keeps_listening_witness:
  "\<exists>w. run_events (mem_ops stored_order) text_api [TcpAccepted False 7] demo_tls_world = Some w
     \<and> handle_event (mem_ops stored_order) text_api (TcpAccepted True 8) w \<noteq> None"
proof -
  obtain w where w: "run_events (mem_ops stored_order) text_api [TcpAccepted False 7] demo_tls_world = Some w"
    "\<not> stopped w"
    by (simp add: demo_tls_world_def handle_event_def OnAccept_def AcceptNext_def open_session_def Let_def
        net_start_def SslSession_Start_def)
  have "reachable (mem_ops stored_order) text_api any_event demo_tls_world w"
    by (rule run_events_reachable [OF reachable.start w(1)])
  from server_keeps_listening [OF demo_main this w(2)] w(1) show ?thesis by blast
qed

end
