(* ===== verification/Lifetime.thy ===== *)
theory Lifetime
  imports Guarantees Startup
begin

text \<open>
  The lifetime of session objects. A session lives in a \<^verbatim>\<open>std::shared_ptr\<close>; copies of it are
  held by the handlers of its asynchronous operations in progress, by the posted tasks that will run
  on it, and by the registry, and the object is destroyed with the last of them.
\<close>

section \<open>Holders of a session\<close>

fun task_session :: "Task \<Rightarrow> address" where
  "task_session (SendTask s message) = s"
| "task_session (CloseTask s) = s"

definition holders :: "Net \<Rightarrow> address \<Rightarrow> nat" where
  "holders n s = length (pending (heap n s)) + length (filter (\<lambda>task. task_session task = s) (posted n))
     + length (filter (\<lambda>entry. snd entry = s) (registry n))"

definition alive :: "Net \<Rightarrow> address \<Rightarrow> bool" where
  "alive n s \<longleftrightarrow> 0 < holders n s"

lemma alive_iff:
  "alive n s \<longleftrightarrow> pending (heap n s) \<noteq> [] \<or> s \<in> task_session ` set (posted n) \<or> s \<in> snd ` set (registry n)"
  by (auto simp: alive_def holders_def image_iff filter_empty_conv)

text \<open>
  Whoever calls \<^verbatim>\<open>Close\<close> has a pointer, which he got from the registry; and a stream whose state
  changes exists.
\<close>

definition on_live_sessions :: "Event \<Rightarrow> 'r World \<Rightarrow> bool" where
  "on_live_sessions e w =
     (case e of CloseCalled s \<Rightarrow> alive (net w) s | OpenChanged s b \<Rightarrow> alive (net w) s | _ \<Rightarrow> True)"

section \<open>Who is sent messages\<close>

text \<open>Posting messages to sessions of a set and doing nothing else.\<close>

definition posts_to :: "address set \<Rightarrow> Net \<Rightarrow> Net \<Rightarrow> bool" where
  "posts_to A n n' \<longleftrightarrow> (\<exists>ms. n' = post_all ms n \<and> fst ` set ms \<subseteq> A)"

lemma posts_to_refl [simp]: "posts_to A n n"
  unfolding posts_to_def by (rule exI [of _ "[]"]) simp

lemma posts_to_trans: "posts_to A n n' \<Longrightarrow> posts_to A n' n'' \<Longrightarrow> posts_to A n n''"
  unfolding posts_to_def
proof (elim exE conjE)
  fix ms ms'
  assume "n' = post_all ms n" "fst ` set ms \<subseteq> A" "n'' = post_all ms' n'" "fst ` set ms' \<subseteq> A"
  then show "\<exists>ms. n'' = post_all ms n \<and> fst ` set ms \<subseteq> A" by (intro exI [of _ "ms @ ms'"]) auto
qed

lemma posts_to_mono: "posts_to A n n' \<Longrightarrow> A \<subseteq> B \<Longrightarrow> posts_to B n n'"
  by (auto simp: posts_to_def)

lemma posts_to_Send: "s \<in> A \<Longrightarrow> posts_to A n (Send s t n)"
  unfolding posts_to_def Send_post by (rule exI [of _ "[(s, t)]"]) simp

lemma posts_to_sel: "posts_to A n n' \<Longrightarrow> heap n' = heap n \<and> registry n' = registry n \<and> next_address n' = next_address n"
  by (auto simp: posts_to_def)

lemma posts_to_tasks: "posts_to A n n' \<Longrightarrow> task_session ` set (posted n') \<subseteq> task_session ` set (posted n) \<union> A"
  by (fastforce simp: posts_to_def)

abbreviation registered_sessions :: "SessionRegistry \<Rightarrow> address set" where
  "registered_sessions reg \<equiv> snd ` set reg"

lemma registry_value: "map_of reg pid = Some t \<Longrightarrow> t \<in> registered_sessions reg"
  by (metis map_of_SomeD image_eqI snd_conv)

lemma posts_DeliverEvents: "posts_to (registered_sessions (registry n)) n (snd (DeliverEvents J evs n))"
proof -
  have "fst ` set (snd (events_messages J reg evs)) \<subseteq> registered_sessions reg" for reg
    by (induction evs) (auto simp: event_messages_def dest!: sym [of "Some _"] dest: registry_value
        split: sum.splits option.splits if_splits)
  then show ?thesis
    by (auto simp: DeliverEvents_messages posts_to_def intro!: exI [of _ "snd (events_messages J (registry n) evs)"])
qed

lemma posts_answer: "posts_to (insert s (registered_sessions (registry n))) n (snd (answer J s result n))"
proof (cases "EncodeResponse J (response result)")
  case (Inr t)
  have "posts_to (insert s (registered_sessions (registry n))) (Send s t n) (snd (DeliverEvents J (events result) (Send s t n)))"
    by (rule posts_to_mono [OF posts_DeliverEvents]) auto
  with Inr show ?thesis by (auto simp: answer_def intro: posts_to_trans [OF posts_to_Send])
qed (simp add: answer_def)

lemma posts_on_result: "posts_to (insert s (registered_sessions (registry n))) n (snd (on_result J s result n))"
proof -
  let ?A = "insert s (registered_sessions (registry n))"
  have relayed: "posts_to ?A n (snd (answer J s result (Send t m n)))" if "map_of (registry n) target = Some t" for t m target
  proof (rule posts_to_trans)
    show "posts_to ?A n (Send t m n)" using registry_value [OF that] by (intro posts_to_Send) simp
    show "posts_to ?A (Send t m n) (snd (answer J s result (Send t m n)))"
      using posts_answer [of s "Send t m n" J result] by simp
  qed
  show ?thesis
  proof (cases "\<exists>mt ty code sender target data. response result = SuccessResponse mt (SignalingResponse ty code sender target data)")
    case True
    then obtain mt ty code sender target data
      where sig: "response result = SuccessResponse mt (SignalingResponse ty code sender target data)" by blast
    show ?thesis
    proof (cases "map_of (registry n) target")
      case None
      with sig show ?thesis
        by (simp add: on_result_def SessionRegistry_Find_def posts_to_Send split: sum.split)
    next
      case (Some t)
      with sig relayed [OF Some] show ?thesis
        by (simp add: on_result_def SessionRegistry_Find_def split: sum.split)
    qed
  next
    case False
    then have "on_result J s result n = answer J s result n"
      by (simp add: on_result_def split: ControlDispatcherResponse.split SuccessResponsePayload.split)
    then show ?thesis using posts_answer [of s n J result] by simp
  qed
qed

lemma posts_Dispatch:
  "posts_to (insert s (registered_sessions (registry n))) n
     (snd (snd (Dispatch ops draws request (Some (on_result J s)) r n)))"
proof (cases "dispatch_switch ops draws request r")
  case (Pair res r')
  let ?A = "insert s (registered_sessions (registry n))"
  let ?internal = "error_result (meta request) InternalErrorResponse"
  show ?thesis
  proof (cases res)
    case (Inl ex)
    with Pair show ?thesis using posts_on_result [of s n J ?internal] by (simp add: Dispatch_def case_prod_beta Let_def)
  next
    case (Inr result)
    obtain out n' where c: "on_result J s result n = (out, n')" by fastforce
    have n': "posts_to ?A n n'" using posts_on_result [of s n J result] c by simp
    then have "posts_to ?A n' (snd (on_result J s ?internal n'))"
      using posts_on_result [of s n' J ?internal] posts_to_sel by metis
    with n' show ?thesis
      using Pair Inr c by (cases out) (auto simp: Dispatch_def case_prod_beta Let_def intro: posts_to_trans)
  qed
qed

lemma posts_HandleMessage:
  "posts_to (insert s (registered_sessions (registry n))) n (snd (snd (HandleMessage ops J draws s message r n)))"
proof -
  have "posts_to (insert s A) n (snd (send_protocol_error J s mt code rid n))" for A mt code rid
    by (auto simp: send_protocol_error_def intro: posts_to_Send split: sum.splits)
  with posts_Dispatch show ?thesis
    by (auto simp: HandleMessage_def case_prod_beta Let_def split: sum.splits decode_exn.splits exn.splits)
qed

section \<open>What an event does to a session without holders\<close>

abbreviation task_sessions :: "Net \<Rightarrow> address set" where
  "task_sessions n \<equiv> task_session ` set (posted n)"

lemma sessions_Remove: "registered_sessions (SessionRegistry_Remove pid reg) \<subseteq> registered_sessions reg"
  by (auto simp: SessionRegistry_Remove_def umap_erase_def AList.delete_eq)

lemma sessions_Add:
  "registered_sessions (SessionRegistry_Add f (Some s) reg) \<subseteq> insert s (registered_sessions reg)"
proof -
  have "snd ` set (AList.update k s reg) \<subseteq> insert s (snd ` set reg)" for k
    by (induction reg) (auto split: if_splits)
  then show ?thesis by (simp add: SessionRegistry_Add_def umap_assign_def)
qed

lemma in_Remove: "(pid', t) \<in> set (SessionRegistry_Remove pid reg) \<Longrightarrow> t \<in> registered_sessions reg"
proof -
  assume "(pid', t) \<in> set (SessionRegistry_Remove pid reg)"
  then have "t \<in> registered_sessions (SessionRegistry_Remove pid reg)" by (intro image_eqI [of t snd]) simp_all
  then show ?thesis by (rule subsetD [OF sessions_Remove])
qed

lemma in_Add:
  "(pid', t) \<in> set (SessionRegistry_Add f (Some s) reg) \<Longrightarrow> t = s \<or> t \<in> registered_sessions reg"
proof -
  assume "(pid', t) \<in> set (SessionRegistry_Add f (Some s) reg)"
  then have "t \<in> registered_sessions (SessionRegistry_Add f (Some s) reg)" by (intro image_eqI [of t snd]) simp_all
  then have "t \<in> insert s (registered_sessions reg)" by (rule subsetD [OF sessions_Add])
  then show ?thesis by (simp only: insert_iff)
qed

lemma tasks_RemoveFromRegistry:
  "task_sessions (snd (RemoveFromRegistry ops J s r n)) \<subseteq> task_sessions n \<union> registered_sessions (registry n)"
proof (cases "registered (heap n s)")
  case True
  obtain res r' where d: "HandleParticipantDisconnected ops (participant_id (heap n s)) r = (res, r')" by fastforce
  have "posts_to (registered_sessions (registry n)) (unregister s n) (snd (RemoveFromRegistry ops J s r n))"
  proof (cases res)
    case (Inr evs)
    have "posts_to (registered_sessions (registry n)) (unregister s n) (snd (DeliverEvents J evs (unregister s n)))"
      by (rule posts_to_mono [OF posts_DeliverEvents]) (simp add: sessions_Remove)
    with True d Inr show ?thesis by (simp add: RemoveFromRegistry_def Let_def unregister_def)
  qed (use True d in \<open>simp add: RemoveFromRegistry_def Let_def unregister_def\<close>)
  from posts_to_tasks [OF this] show ?thesis by simp
qed (simp add: RemoveFromRegistry_def)

lemma tasks_Fail:
  "task_sessions (snd (Fail ops J s r n)) \<subseteq> task_sessions n \<union> registered_sessions (registry n)"
  using tasks_RemoveFromRegistry [of ops J s r "modify s (\<lambda>x. x\<lparr>closing := True\<rparr>) n"]
  by (simp add: Fail_def Let_def case_prod_beta)

lemma tasks_run_close:
  "task_sessions (snd (run_close ops J s r n)) \<subseteq> task_sessions n \<union> registered_sessions (registry n)"
  using tasks_RemoveFromRegistry [of ops J s r "modify s (\<lambda>x. x\<lparr>closing := True\<rparr>) n"]
  by (auto simp: run_close_def Let_def case_prod_beta)

lemma tasks_OnRead:
  assumes "OnRead ops J draws s result r n = (None, r', n')"
  shows "task_sessions n' \<subseteq> insert s (task_sessions n \<union> registered_sessions (registry n))"
proof (cases result)
  case ReadClosed
  with assms have "n' = snd (RemoveFromRegistry ops J s r n)" by (auto simp: OnRead_def split: prod.splits)
  then show ?thesis using tasks_RemoveFromRegistry [of ops J s r n] by auto
next
  case ReadError
  with assms have "n' = snd (Fail ops J s r n)" by (auto simp: OnRead_def split: prod.splits)
  then show ?thesis using tasks_Fail [of ops J s r n] by auto
next
  case (ReadMessage is_text t)
  show ?thesis
  proof (cases is_text)
    case True
    with assms ReadMessage have "posted n' = posted (snd (snd (HandleMessage ops J draws s t r n)))"
      by (auto simp: OnRead_def ReadNext_def split: prod.splits option.splits)
    with posts_to_tasks [OF posts_HandleMessage [of s n ops J draws t r]] show ?thesis by auto
  next
    case False
    with assms ReadMessage show ?thesis by (auto simp: OnRead_def ReadNext_def split: sum.splits)
  qed
qed

lemma event_tasks:
  assumes "handle_event ops J e w = Some (None, w')" and "on_live_sessions e w" and "t \<in> task_sessions (net w')"
  shows "alive (net w) t"
  using assms(1)
proof (cases rule: event_cases)
  case (task task tasks)
  show ?thesis
  proof (cases task)
    case (SendTask s m)
    with task assms(3) show ?thesis by (auto simp: alive_iff run_task_def run_send_effect)
  next
    case (CloseTask s)
    with task assms(3) tasks_run_close [of ops J s "repository w" "(net w)\<lparr>posted := tasks\<rparr>"] show ?thesis
      by (auto simp: alive_iff run_task_def)
  qed
next
  case (handshake s error)
  with assms(3) tasks_Fail [of ops J s "repository w" "finish_async s AsyncHandshake (net w)"] show ?thesis
    by (auto simp: alive_iff OnTlsHandshake_def AcceptWebSocket_def split: if_splits)
next
  case (accept s error)
  with assms(3) tasks_Fail [of ops J s "repository w" "finish_async s AsyncAccept (net w)"] show ?thesis
    by (auto simp: alive_iff OnWebSocketAccept_def ReadNext_def Let_def split: if_splits)
next
  case (read s result draws)
  have "pending (heap (net w) s) \<noteq> []" using read(2) by auto
  with tasks_OnRead [OF read(3)] assms(3) show ?thesis by (auto simp: alive_iff)
next
  case (written s error m)
  with assms(3) tasks_Fail [of ops J s "repository w" "complete_write s m error (net w)"] show ?thesis
    by (auto simp: alive_iff on_write_def complete_write_def Let_def split: if_splits)
next
  case (close s)
  with assms(2,3) show ?thesis by (auto simp: alive_iff on_live_sessions_def)
qed (use assms(3) in \<open>auto simp: alive_iff open_session_def Let_def SslSession_Start_def PlainSession_Start_def
    AcceptWebSocket_def split: if_splits\<close>)

lemma event_sessions:
  assumes "handle_event ops J e w = Some (None, w')" and "t \<in> registered_sessions (registry (net w'))"
  shows "alive (net w) t"
  using assms(1)
proof (cases rule: event_cases)
  case (read s result draws)
  from read(3) have "registry (net w') = registry (net w) \<or> (\<exists>pid. registry (net w') = SessionRegistry_Remove pid (registry (net w)))"
  proof (cases rule: OnRead_cases)
    case closed
    then have "net w' = snd (RemoveFromRegistry ops J s (repository w) (finish_async s AsyncRead (net w)))" by simp
    then show ?thesis by auto
  next
    case error
    then have "net w' = snd (Fail ops J s (repository w) (finish_async s AsyncRead (net w)))" by simp
    then show ?thesis by auto
  qed (simp add: ReadNext_def)
  then have "registered_sessions (registry (net w')) \<subseteq> registered_sessions (registry (net w))"
    by (elim disjE exE) (simp_all add: sessions_Remove)
  with assms(2) show ?thesis by (simp add: alive_iff subsetD)
next
  case (task task tasks)
  with assms(2) show ?thesis
    by (cases task) (auto simp: alive_iff run_task_def run_send_effect run_close_effect dest: in_Remove split: if_splits)
next
  case (accept s error)
  have "pending (heap (net w) s) \<noteq> []" using accept(2) by auto
  with accept assms(2) show ?thesis
    by (auto simp: alive_iff OnWebSocketAccept_def ReadNext_def Let_def dest: in_Remove in_Add split: if_splits)
qed (use assms(2) in \<open>auto simp: alive_iff handler_effects dest: in_Remove split: if_splits\<close>)

lemma event_dead_heap:
  assumes "handle_event ops J e w = Some (None, w')" and "on_live_sessions e w"
    and "\<not> alive (net w) t" and "t < next_address (net w)"
  shows "heap (net w') t = heap (net w) t"
  using assms(1)
proof (cases rule: event_cases)
  case (read s result draws)
  then have "s \<noteq> t" using assms(3) by (auto simp: alive_iff)
  from read(3) show ?thesis
  proof (cases rule: OnRead_cases)
    case closed
    then have "net w' = snd (RemoveFromRegistry ops J s (repository w) (finish_async s AsyncRead (net w)))" by simp
    with \<open>s \<noteq> t\<close> show ?thesis by simp
  next
    case error
    then have "net w' = snd (Fail ops J s (repository w) (finish_async s AsyncRead (net w)))" by simp
    with \<open>s \<noteq> t\<close> show ?thesis by simp
  qed (use \<open>s \<noteq> t\<close> in \<open>simp add: ReadNext_def\<close>)
next
  case (task task tasks)
  then have "task_session task \<noteq> t" using assms(3) by (auto simp: alive_iff)
  with task show ?thesis by (cases task) (auto simp: run_task_def run_send_effect run_close_effect)
next
  case (written s error m)
  then have "s \<noteq> t" using assms(3) by (auto simp: alive_iff)
  with written show ?thesis by (auto simp: on_write_def complete_write_def Let_def)
qed (use assms(2-4) in \<open>auto simp: alive_iff handler_effects on_live_sessions_def\<close>)

lemma event_dead:
  assumes "handle_event ops J e w = Some (None, w')" and "on_live_sessions e w"
    and "\<not> alive (net w) t" and "t < next_address (net w)"
  shows "\<not> alive (net w') t \<and> heap (net w') t = heap (net w) t"
proof
  show heap: "heap (net w') t = heap (net w) t" using assms by (rule event_dead_heap)
  show "\<not> alive (net w') t"
    using event_tasks [OF assms(1,2), of t] event_sessions [OF assms(1), of t] assms(3) heap
    by (auto simp: alive_iff)
qed

lemma reachable_dead:
  assumes "reachable ops J on_live_sessions w w'" and "\<not> alive (net w) t" and "t < next_address (net w)"
  shows "\<not> alive (net w') t \<and> heap (net w') t = heap (net w) t \<and> t < next_address (net w')"
  using assms
proof (induction rule: reachable.induct)
  case (event w1 e w2)
  then show ?case using event_dead [OF event.hyps(3,2), of t] event_next_address [OF event.hyps(3)] by simp
qed simp

section \<open>The registry is never the last holder\<close>

lemma reachable_reads:
  assumes "reachable ops J ev (Server_Run l r) w" and "registered (heap (net w) s)"
  shows "AsyncRead \<in> set (pending (heap (net w) s))"
  using assms
proof (induction arbitrary: s rule: reachable.induct)
  case start
  then show ?case by (simp add: Server_Run_def net_start_def Session_new_def)
next
  case (event w e w')
  show ?case by (rule event_reads [OF event.hyps(3) event.IH event.prems])
qed

lemma registry_holds_reading:
  assumes run: "reachable ops J ev (Server_Run l r) w" and "distinct_ids (net w)"
    and "s \<in> registered_sessions (registry (net w))"
  shows "AsyncRead \<in> set (pending (heap (net w) s))"
proof -
  obtain pid where "(pid, s) \<in> set (registry (net w))" using assms(3) by auto
  moreover have "umap_wf (registry (net w))"
    using reachable_net_ok [OF run Server_Run_ok] by (simp add: net_ok_def)
  ultimately have "SessionRegistry_Find pid (registry (net w)) = Some s"
    by (simp add: SessionRegistry_Find_def umap_wf_def)
  then have "registered (heap (net w) s)"
    using reachable_mirror [OF run assms(2)] by (simp add: mirror_def)
  with run show ?thesis by (rule reachable_reads)
qed

text \<open>
  C13. Session objects are destroyed exactly when they should be: in every reachable state (with
  distinct ids) a session exists exactly as long as an operation of it is in progress or a task for it
  is posted, so the registry never keeps a finished session; and a session that was destroyed is
  never touched again: no later handler, task or registry entry refers to it.
\<close>

theorem session_lifetime:
  assumes "reachable ops J on_live_sessions (Server_Run l r) w" and "distinct_ids (net w)"
    and "s < next_address (net w)"
  shows "(alive (net w) s \<longleftrightarrow>
      pending (heap (net w) s) \<noteq> [] \<or> (\<exists>task \<in> set (posted (net w)). task_session task = s))
    \<and> (\<not> alive (net w) s \<longrightarrow> (\<forall>w'. reachable ops J on_live_sessions w w' \<longrightarrow>
        \<not> alive (net w') s \<and> heap (net w') s = heap (net w) s))"
proof
  have "pending (heap (net w) s) \<noteq> []" if "s \<in> registered_sessions (registry (net w))"
    using registry_holds_reading [OF assms(1,2) that] by auto
  then show "alive (net w) s \<longleftrightarrow>
      pending (heap (net w) s) \<noteq> [] \<or> (\<exists>task \<in> set (posted (net w)). task_session task = s)"
    unfolding alive_iff by blast
  show "\<not> alive (net w) s \<longrightarrow> (\<forall>w'. reachable ops J on_live_sessions w w' \<longrightarrow>
        \<not> alive (net w') s \<and> heap (net w') s = heap (net w) s)"
    using reachable_dead assms(3) by blast
qed

text \<open>A client that connects and then closes its connection.\<close>

definition demo_visit :: "Event list" where
  "demo_visit = demo_connect @ [ReadDone 0 ReadClosed (\<lambda>i. i)]"

lemma demo_visited:
  "\<exists>w. run_events (mem_ops stored_order) text_api demo_visit demo_world = Some w
     \<and> pending (heap (net w) 0) = [] \<and> next_address (net w) = 1 \<and> posted (net w) = []"
proof -
  obtain w where w: "run_events (mem_ops stored_order) text_api demo_connect demo_world = Some w"
    "pending (heap (net w) 0) = [AsyncRead]" "registered (heap (net w) 0)" "\<not> stopped w"
    "next_address (net w) = 1" "repository w = InMemory_new" "posted (net w) = []"
    using demo_connected by blast
  obtain out r' n' where run: "OnRead (mem_ops stored_order) text_api (\<lambda>i. i) 0 ReadClosed (repository w)
      (finish_async 0 AsyncRead (net w)) = (out, r', n')"
    by (metis prod_cases3)
  have hd: "HandleParticipantDisconnected (mem_ops stored_order) pid InMemory_new = (Inr [], InMemory_new)" for pid
    by (simp add: HandleParticipantDisconnected_def RoomService_LeaveAllRooms_def InMemory_ops_def
        InMemory_GetRoomCodes_def InMemory_new_def left_events_def)
  have "out = None" and n': "n' = snd (RemoveFromRegistry (mem_ops stored_order) text_api 0 InMemory_new
      (finish_async 0 AsyncRead (net w)))"
    using run w(6) by (auto simp: OnRead_def split: prod.splits)
  have "pending (heap n' 0) = []" "next_address n' = 1" "posted n' = []"
    using w by (simp_all add: n') (simp add: RemoveFromRegistry_def Let_def hd)
  moreover have "run_events (mem_ops stored_order) text_api demo_visit demo_world
      = Some (w\<lparr>repository := r', net := n'\<rparr>)"
    using read_event [of w 0 "mem_ops stored_order" text_api "\<lambda>i. i" ReadClosed out r' n'] w(1,2,4) run \<open>out = None\<close>
    by (simp add: demo_visit_def run_events_append)
  ultimately show ?thesis by (intro exI [of _ "w\<lparr>repository := r', net := n'\<rparr>"]) simp
qed

lemma run_events_reachable_env:
  assumes "reachable ops J env w0 w" and "run_events ops J es w = Some w'" and "\<And>e w. e \<in> set es \<Longrightarrow> env e w"
  shows "reachable ops J env w0 w'"
  using assms
proof (induction es arbitrary: w)
  case (Cons e es)
  then obtain w1 where ev: "handle_event ops J e w = Some (None, w1)" "run_events ops J es w1 = Some w'"
    by (auto split: option.splits prod.splits)
  have "reachable ops J env w0 w1" by (rule reachable.event [OF Cons.prems(1) _ ev(1)]) (simp add: Cons.prems(3))
  then show ?case by (rule Cons.IH [OF _ ev(2)]) (simp add: Cons.prems(3))
qed simp

theorem session_lifetime_witness:
  "\<exists>w. reachable (mem_ops stored_order) text_api on_live_sessions demo_world w
     \<and> 0 < next_address (net w) \<and> \<not> alive (net w) 0"
proof -
  obtain w where w: "run_events (mem_ops stored_order) text_api demo_visit demo_world = Some w"
    "pending (heap (net w) 0) = []" "next_address (net w) = 1" "posted (net w) = []"
    using demo_visited by blast
  have run: "reachable (mem_ops stored_order) text_api on_live_sessions demo_world w"
    by (rule run_events_reachable_env [OF reachable.start w(1)])
      (auto simp: demo_visit_def demo_connect_def on_live_sessions_def)
  have "distinct_ids (net w)" by (simp add: distinct_ids_def w(3))
  from session_lifetime [OF run [unfolded demo_world_def] this, of 0] w run show ?thesis by auto
qed

end
