(* ===== verification/Stale.thy ===== *)
theory Stale
  imports EndToEnd Lifetime
begin

text \<open>
  A flaw of src/net/Session.hpp: \<^verbatim>\<open>OnRead\<close> handles a message although its session has already
  been taken out of the registry and out of its rooms. The room that such a message creates keeps its
  member for ever.
\<close>

section \<open>Who can take a member out of a room\<close>



section \<open>Sessions that have ended\<close>






section \<open>A late message\<close>










end
