(* ===== verification/Threads.thy ===== *)
theory Threads
  imports Dispatcher
begin

text \<open>
  The use cases of src/app/RoomService.cpp when several threads run them at once, as the repository's
  contract allows (each of its methods is atomic, docs/ARCHITECTURE.md): between two calls of the
  repository, any other thread may make calls of its own.

  A use case is a program that says which repository call comes next and how to go on with the
  reply. Run alone, these programs are the functions of theory \<open>Service\<close>; what is proved here
  holds for every interleaving.
\<close>

section \<open>Programs\<close>

datatype 'a prog =
    Return 'a
  | Call "UpdateCaptures RepoCall" "UpdateCaptures RepoReply \<Rightarrow> 'a prog"
  | Codes "exn + RoomCode list \<Rightarrow> 'a prog"

primrec bind_prog :: "'a prog \<Rightarrow> ('a \<Rightarrow> 'b prog) \<Rightarrow> 'b prog" where
  "bind_prog (Return x) f = f x"
| "bind_prog (Call c k) f = Call c (\<lambda>reply. bind_prog (k reply) f)"
| "bind_prog (Codes k) f = Codes (\<lambda>codes. bind_prog (k codes) f)"

text \<open>A program that runs alone.\<close>

primrec run_prog :: "('r, UpdateCaptures) RoomRepository \<Rightarrow> 'a prog \<Rightarrow> 'r \<Rightarrow> 'a \<times> 'r" where
  "run_prog ops (Return x) r = (x, r)"
| "run_prog ops (Call c k) r = run_prog ops (k (fst (repo_call ops c r))) (snd (repo_call ops c r))"
| "run_prog ops (Codes k) r = run_prog ops (k (GetRoomCodes ops r)) r"

lemma run_bind:
  "run_prog ops (bind_prog p f) r = run_prog ops (f (fst (run_prog ops p r))) (snd (run_prog ops p r))"
  by (induction p arbitrary: r) simp_all

section \<open>The use cases as programs\<close>

text \<open>
  A reply always has the kind of the call it answers; what a program does with another one does not
  matter.
\<close>

definition join_outcome ::
  "RoomCode \<Rightarrow> Participant \<Rightarrow> UpdateCaptures RepoReply \<Rightarrow> ParticipantJoinedRoomResult"
where
  "join_outcome code participant reply =
     (case reply of
        UpdateReply (Inr res) c \<Rightarrow>
          if res = UpdateNotFound then Err BuildRoomNotFoundError
          else (case join_result c of
              None \<Rightarrow> Err BuildInternalError
            | Some jr \<Rightarrow>
                if jr = AlreadyInRoom then Err BuildAlreadyJoinedError
                else if jr = InvalidSecret then Err BuildWrongPasswordError
                else if jr = SecretNotProvided then Err BuildPasswordNotProvidedError
                else Ok (ParticipantJoinedRoom code participant (captured_participants c)))
      | _ \<Rightarrow> Err BuildInternalError)"

definition join_prog ::
  "RoomCode \<Rightarrow> Participant \<Rightarrow> RoomSecret option \<Rightarrow> ParticipantJoinedRoomResult prog"
where
  "join_prog code participant password =
     Call (CallUpdate code (join_updater participant password) no_captures)
       (\<lambda>reply. Return (join_outcome code participant reply))"

definition leave_prog :: "RoomCode \<Rightarrow> ParticipantId \<Rightarrow> ParticipantLeftRoomResult prog" where
  "leave_prog code pid =
     Call (CallUpdate code (leave_updater pid) no_captures) (\<lambda>reply.
       case reply of
         UpdateReply res c \<Rightarrow>
           if res = Inr UpdateNotFound then Return (Err BuildRoomNotFoundError)
           else (case leave_result c of
               None \<Rightarrow> Return (Err BuildInternalError)
             | Some lr \<Rightarrow>
                 if lr = LeaveRoomResult.NotInRoom then Return (Err BuildNotInRoomError)
                 else Call (CallRemoveIfEmpty code) (\<lambda>reply'.
                   Return (case reply' of
                       RemoveEmptyReply (Inr _) \<Rightarrow> Ok (ParticipantLeftRoom code pid (captured_participants c))
                     | _ \<Rightarrow> Err BuildInternalError)))
       | _ \<Rightarrow> Return (Err BuildInternalError))"

function create_prog ::
  "RoomSecret option \<Rightarrow> (nat \<Rightarrow> nat) \<Rightarrow> nat \<Rightarrow> CreateRoomResult prog"
where
  "create_prog password draws attempt =
     (if attempt < max_attempts then
        (let room = Room_new (GenerateRoomCode (draws attempt)) password
         in Call (CallAdd room) (\<lambda>reply.
              case reply of
                AddReply (Inr Added) \<Rightarrow> Return (Ok room)
              | AddReply (Inr AlreadyExists) \<Rightarrow> create_prog password draws (Suc attempt)
              | _ \<Rightarrow> Return (Err BuildInternalError)))
      else Return (Err BuildRoomCodeGenerationFailedError))"
  by pat_completeness auto
termination
  by (relation "measure (\<lambda>(password, draws, attempt). max_attempts - attempt)") auto

declare create_prog.simps [simp del]

primrec leave_rooms_prog :: "ParticipantId \<Rightarrow> RoomCode list \<Rightarrow> ParticipantsLeftRoomResults prog" where
  "leave_rooms_prog pid [] = Return []"
| "leave_rooms_prog pid (code # codes) =
     bind_prog (leave_prog code pid) (\<lambda>res.
     bind_prog (leave_rooms_prog pid codes) (\<lambda>ress.
       Return (if keep_result res then res # ress else ress)))"

definition leave_all_prog :: "ParticipantId \<Rightarrow> (exn + ParticipantsLeftRoomResults) prog" where
  "leave_all_prog pid =
     Codes (\<lambda>codes. case codes of
         Inl ex \<Rightarrow> Return (Inl ex)
       | Inr cs \<Rightarrow> bind_prog (leave_rooms_prog pid cs) (\<lambda>ress. Return (Inr ress)))"

text \<open>The \<^verbatim>\<open>CreateRoom\<close> branch of the dispatcher: creation, and then the creator joins.\<close>

definition create_join_prog ::
  "Participant \<Rightarrow> RoomSecret option \<Rightarrow> (nat \<Rightarrow> nat) \<Rightarrow> ParticipantJoinedRoomResult prog"
where
  "create_join_prog participant password draws =
     bind_prog (create_prog password draws 0) (\<lambda>res.
       case res of
         Err e \<Rightarrow> Return (Err e)
       | Ok room \<Rightarrow> join_prog (GetCode room) participant password)"

section \<open>Alone, the programs are the use cases\<close>

lemma run_join: "run_prog ops (join_prog code p password) r = RoomService_JoinRoom ops code p password r"
  by (auto simp: join_prog_def join_outcome_def RoomService_JoinRoom_def Let_def split: prod.splits sum.splits option.splits)

lemma run_leave: "run_prog ops (leave_prog code pid) r = RoomService_LeaveRoom ops code pid r"
  by (auto simp: leave_prog_def RoomService_LeaveRoom_def Let_def apfst_def map_prod_def
      split: prod.splits sum.splits option.splits)

lemma run_create: "run_prog ops (create_prog password draws attempt) r = create_room_loop ops password draws attempt r"
proof (induction password draws attempt arbitrary: r rule: create_prog.induct)
  case (1 password draws attempt)
  show ?case
  proof (cases "attempt < max_attempts")
    case True
    with 1 show ?thesis
      by (auto simp: create_prog.simps [of password draws attempt]
          create_room_loop.simps [of ops password draws attempt] Let_def apfst_def map_prod_def
          split: prod.splits sum.splits AddRoomResult.splits)
  next
    case False
    then show ?thesis
      by (simp add: create_prog.simps [of password draws attempt] create_room_loop.simps [of ops password draws attempt])
  qed
qed

lemma run_leave_rooms: "run_prog ops (leave_rooms_prog pid codes) r = leave_rooms ops pid codes r"
  by (induction codes arbitrary: r) (simp_all add: run_bind run_leave Let_def case_prod_beta)

lemma run_leave_all: "run_prog ops (leave_all_prog pid) r = RoomService_LeaveAllRooms ops pid r"
  by (auto simp: leave_all_prog_def RoomService_LeaveAllRooms_def run_bind run_leave_rooms Let_def case_prod_beta
      split: sum.splits)

lemma run_create_join:
  "dispatch_create ops draws \<lparr>meta = m, command = CreateRoomCommand p password\<rparr> r =
     (let (res, r') = run_prog ops (create_join_prog p password draws) r
      in (Inr (case res of
            Err e \<Rightarrow> error_result m (MapServiceError e)
          | Ok (ParticipantJoinedRoom c q qs) \<Rightarrow> success_result m (CreateRoomResponse c q qs) []), r'))"
  by (auto simp: create_join_prog_def dispatch_create_def run_bind run_create run_join RoomService_CreateRoom_def
      split: prod.splits Result.splits ParticipantJoinedRoom.splits)

section \<open>Interleavings\<close>

text \<open>What clients ask for, and what the threads that serve them end with.\<close>

datatype UseCase =
    UseCreate Participant "RoomSecret option" "nat \<Rightarrow> nat"
  | UseJoin RoomCode Participant "RoomSecret option"
  | UseLeave RoomCode ParticipantId
  | UseLeaveAll ParticipantId

datatype Outcome =
    Joining ParticipantJoinedRoomResult
  | Leaving ParticipantLeftRoomResult
  | LeavingAll "exn + ParticipantsLeftRoomResults"

fun thread_of :: "UseCase \<Rightarrow> Outcome prog" where
  "thread_of (UseCreate p password draws) = bind_prog (create_join_prog p password draws) (\<lambda>res. Return (Joining res))"
| "thread_of (UseJoin code p password) = bind_prog (join_prog code p password) (\<lambda>res. Return (Joining res))"
| "thread_of (UseLeave code pid) = bind_prog (leave_prog code pid) (\<lambda>res. Return (Leaving res))"
| "thread_of (UseLeaveAll pid) = bind_prog (leave_all_prog pid) (\<lambda>res. Return (LeavingAll res))"

inductive interleaved ::
  "('r, UpdateCaptures) RoomRepository \<Rightarrow> 'a prog list \<Rightarrow> 'r \<Rightarrow> 'a prog list \<Rightarrow> 'r \<Rightarrow> bool"
  for ops ts0 r0
where
  none: "interleaved ops ts0 r0 ts0 r0"
| call: "interleaved ops ts0 r0 ts r \<Longrightarrow> i < length ts \<Longrightarrow> ts ! i = Call c k \<Longrightarrow>
    repo_call ops c r = (reply, r') \<Longrightarrow> interleaved ops ts0 r0 (ts[i := k reply]) r'"
| codes: "interleaved ops ts0 r0 ts r \<Longrightarrow> i < length ts \<Longrightarrow> ts ! i = Codes k \<Longrightarrow>
    interleaved ops ts0 r0 (ts[i := k (GetRoomCodes ops r)]) r"

definition finished :: "'a prog list \<Rightarrow> bool" where
  "finished ts \<longleftrightarrow> (\<forall>t \<in> set ts. \<exists>x. t = Return x)"

text \<open>A property of calls that holds for all calls of a program.\<close>

primrec all_calls :: "(UpdateCaptures RepoCall \<Rightarrow> bool) \<Rightarrow> 'a prog \<Rightarrow> bool" where
  "all_calls P (Return x) = True"
| "all_calls P (Call c k) = (P c \<and> (\<forall>reply. all_calls P (k reply)))"
| "all_calls P (Codes k) = (\<forall>codes. all_calls P (k codes))"

lemma all_calls_bind:
  "all_calls P p \<Longrightarrow> (\<And>x. all_calls P (f x)) \<Longrightarrow> all_calls P (bind_prog p f)"
  by (induction p) simp_all

lemma interleaved_length: "interleaved ops ts0 r0 ts r \<Longrightarrow> length ts = length ts0"
  by (induction rule: interleaved.induct) simp_all

lemma interleaved_all_calls:
  assumes "interleaved ops ts0 r0 ts r" and "\<forall>t \<in> set ts0. all_calls P t"
  shows "\<forall>t \<in> set ts. all_calls P t"
  using assms
proof (induction rule: interleaved.induct)
  case (call ts r i c k reply r')
  then have "all_calls P (Call c k)" by (metis nth_mem)
  with call show ?case by (auto dest!: set_update_subset_insert [THEN subsetD])
next
  case (codes ts r i k)
  then have "all_calls P (Codes k)" by (metis nth_mem)
  with codes show ?case by (auto dest!: set_update_subset_insert [THEN subsetD])
qed simp

text \<open>An invariant of the map of rooms that every call keeps holds in every interleaving.\<close>

context room_service begin

lemma interleaved_store:
  assumes "interleaved ops ts0 r0 ts r" and "\<forall>t \<in> set ts0. all_calls P t" and "invar r0" and "I (lookup r0)"
    and keeps: "\<And>c m. P c \<Longrightarrow> I m \<Longrightarrow> I (snd (store_call c m))"
  shows "I (lookup r) \<and> invar r"
  using assms(1-4)
proof (induction rule: interleaved.induct)
  case (call ts r i c k reply r')
  have "all_calls P (Call c k)" using interleaved_all_calls [OF call.hyps(1) call.prems(1)] call.hyps(2,3) by (metis nth_mem)
  with call keeps [of c "lookup r"] call_refines [of r c] show ?case by simp
qed simp_all

end

section \<open>The calls of the use cases\<close>

text \<open>Calls that do not take a participant out of a room.\<close>

definition keeps_member :: "ParticipantId \<Rightarrow> UpdateCaptures RepoCall \<Rightarrow> bool" where
  "keeps_member pid c \<longleftrightarrow> (\<forall>m code. in_store pid code m \<longrightarrow> in_store pid code (snd (store_call c m)))"

definition leaves :: "ParticipantId \<Rightarrow> UseCase \<Rightarrow> bool" where
  "leaves pid use \<longleftrightarrow> (case use of UseLeave code q \<Rightarrow> q = pid | UseLeaveAll q \<Rightarrow> q = pid | _ \<Rightarrow> False)"

lemma store_update_join:
  "snd (store_call (CallUpdate code (join_updater p password) no_captures) m) =
     (case m code of
        None \<Rightarrow> m
      | Some room \<Rightarrow> if fst (TryAddParticipant p password room) = Joined
          then m(code \<mapsto> room\<lparr>GetParticipants := GetParticipants room @ [p]\<rparr>) else m)"
  by (simp add: transact_join Let_def split: option.splits)

lemma store_update_leave:
  "snd (store_call (CallUpdate code (leave_updater pid) no_captures) m) =
     (case m code of
        None \<Rightarrow> m
      | Some room \<Rightarrow> if pid \<in> member_ids room then m(code \<mapsto> without pid room) else m)"
  by (simp add: transact_leave split: option.splits)

lemmas store_calls = store_update_join store_update_leave

lemma keeps_member_calls:
  "keeps_member pid (CallAdd room)" "keeps_member pid (CallRemoveIfEmpty code)"
  "keeps_member pid (CallUpdate code (join_updater p password) no_captures)"
  "q \<noteq> pid \<Longrightarrow> keeps_member pid (CallUpdate code (leave_updater q) no_captures)"
  unfolding keeps_member_def store_calls
  by (auto simp: in_store_def member_ids_def IsEmpty_def without_def split: option.splits if_splits)

definition keeps_wf :: "UpdateCaptures RepoCall \<Rightarrow> bool" where
  "keeps_wf c \<longleftrightarrow> (\<forall>m. store_wf m \<longrightarrow> store_wf (snd (store_call c m)))"

lemma keeps_wf_calls:
  "keeps_wf (CallAdd (Room_new code password))" "keeps_wf (CallRemoveIfEmpty code)"
  "keeps_wf (CallUpdate code (join_updater p password) no_captures)"
  "keeps_wf (CallUpdate code (leave_updater q) no_captures)"
  unfolding keeps_wf_def store_calls
  by (auto simp: store_wf_def room_wf_without room_wf_snoc TryAdd_Joined_iff split: option.splits if_splits)

text \<open>A use case makes no other calls than these.\<close>

lemma create_calls:
  assumes "\<And>code. P (CallAdd (Room_new code password))"
  shows "all_calls P (create_prog password draws attempt)"
  using assms
proof (induction password draws attempt rule: create_prog.induct)
  case (1 password draws attempt)
  then show ?case
    by (auto simp: create_prog.simps [of password draws attempt] Let_def
        split: RepoReply.splits sum.splits AddRoomResult.splits)
qed

lemma leave_calls:
  assumes "\<And>code. P (CallUpdate code (leave_updater pid) no_captures)" and "\<And>code. P (CallRemoveIfEmpty code)"
  shows "all_calls P (leave_prog code pid)" and "all_calls P (leave_rooms_prog pid codes)"
    and "all_calls P (leave_all_prog pid)"
proof -
  show leave: "all_calls P (leave_prog code pid)" for code
    using assms by (auto simp: leave_prog_def split: RepoReply.splits option.splits)
  show "all_calls P (leave_rooms_prog pid codes)" for codes
    by (induction codes) (auto intro!: all_calls_bind leave)
  then show "all_calls P (leave_all_prog pid)"
    by (auto simp: leave_all_prog_def intro!: all_calls_bind split: sum.splits)
qed

lemma thread_calls:
  assumes "\<And>code password. P (CallAdd (Room_new code password))" and "\<And>code. P (CallRemoveIfEmpty code)"
    and "\<And>code p password. P (CallUpdate code (join_updater p password) no_captures)"
    and "\<And>code pid. leaves pid use \<Longrightarrow> P (CallUpdate code (leave_updater pid) no_captures)"
  shows "all_calls P (thread_of use)"
proof -
  have join: "all_calls P (join_prog code p password)" for code p password
    using assms(3) by (simp add: join_prog_def)
  then have "all_calls P (create_join_prog p password draws)" for p password draws
    using assms(1) by (auto simp: create_join_prog_def intro!: all_calls_bind create_calls split: Result.splits)
  with join assms(2,4) leave_calls [of P] show ?thesis
    by (cases use) (auto simp: leaves_def intro!: all_calls_bind)
qed

lemmas thread_keeps =
  thread_calls [of keeps_wf, OF keeps_wf_calls]
  thread_calls [of "keeps_member pid" for pid, OF keeps_member_calls(1-3)]

section \<open>Joins are never lost\<close>

text \<open>Where the thread of a join is: before its only call, or after it, with what it was told.\<close>

definition join_state :: "UseCase \<Rightarrow> Outcome prog \<Rightarrow> store \<Rightarrow> bool" where
  "join_state use t m \<longleftrightarrow>
     (case use of
        UseJoin code p password \<Rightarrow>
          t = thread_of use \<or> (\<exists>res. t = Return (Joining res) \<and> (IsOk res \<longrightarrow> in_store (GetId p) code m))
      | _ \<Rightarrow> True)"

lemma join_call_result:
  assumes "store_call (CallUpdate code (join_updater p password) no_captures) m = (reply, m')"
    and "IsOk (join_outcome code p reply)"
  shows "in_store (GetId p) code m'"
  using assms
  by (auto simp: transact_join join_outcome_def in_store_def member_ids_def Let_def TryAdd_result
      split: option.splits if_splits)

context room_service begin

lemma interleaved_members:
  assumes "interleaved ops (map thread_of uses) r0 ts r" and "invar r0" and "\<forall>use \<in> set uses. \<not> leaves pid use"
  shows "in_store pid code (lookup r0) \<longrightarrow> in_store pid code (lookup r)"
proof
  assume "in_store pid code (lookup r0)"
  moreover have "\<forall>t \<in> set (map thread_of uses). all_calls (keeps_member pid) t"
    using assms(3) keeps_member_calls(4) thread_keeps(2) by auto metis
  ultimately show "in_store pid code (lookup r)"
    using interleaved_store [OF assms(1), of "keeps_member pid" "in_store pid code"] assms(2)
    by (simp add: keeps_member_def)
qed

lemma interleaved_wf:
  assumes "interleaved ops (map thread_of uses) r0 ts r" and "invar r0" and "store_wf (lookup r0)"
  shows "store_wf (lookup r)"
  using interleaved_store [OF assms(1), of keeps_wf store_wf] assms(2,3) thread_keeps(1)
  by (auto simp: keeps_wf_def)

lemma interleaved_join:
  assumes run: "interleaved ops (map thread_of uses) r0 ts r" and "invar r0"
    and i: "i < length uses" "uses ! i = UseJoin code p password"
    and stay: "\<forall>use \<in> set uses. \<not> leaves (GetId p) use"
  shows "join_state (uses ! i) (ts ! i) (lookup r) \<and> invar r"
  using run
proof (induction rule: interleaved.induct)
  case none
  then show ?case using assms(2) i by (simp add: join_state_def)
next
  case (call ts r j c k reply r')
  have len: "length ts = length uses" using interleaved_length [OF call.hyps(1)] by simp
  have "all_calls (keeps_member (GetId p)) t" if "t \<in> set (map thread_of uses)" for t
    using that stay keeps_member_calls(4) thread_keeps(2) by auto metis
  then have "\<forall>t \<in> set ts. all_calls (keeps_member (GetId p)) t"
    using interleaved_all_calls [OF call.hyps(1)] by blast
  then have keeps: "keeps_member (GetId p) c" using call.hyps(2,3) by (metis nth_mem all_calls.simps(2))
  have r': "lookup r' = snd (store_call c (lookup r))" "reply = fst (store_call c (lookup r))" "invar r'"
    using call_refines [of r c] call.IH call.hyps(4) by auto
  show ?case
  proof (cases "j = i")
    case False
    then show ?thesis using call.IH i keeps r' by (auto simp: join_state_def keeps_member_def)
  next
    case True
    then have c: "c = CallUpdate code (join_updater p password) no_captures"
      "k reply = Return (Joining (join_outcome code p reply))"
      using call.IH call.hyps(3) i by (auto simp: join_state_def join_prog_def)
    then have "IsOk (join_outcome code p reply) \<longrightarrow> in_store (GetId p) code (lookup r')"
      using join_call_result [of code p password "lookup r" reply "lookup r'"] r' by (metis prod.collapse)
    with True c(2) i len r'(3) show ?thesis by (simp add: join_state_def)
  qed
next
  case (codes ts r j k)
  have len: "length ts = length uses" using interleaved_length [OF codes.hyps(1)] by simp
  have "j \<noteq> i" using codes i by (auto simp: join_state_def join_prog_def)
  with codes i show ?case by simp
qed

end

section \<open>No empty room is left behind\<close>

text \<open>
  A thread that will take care of an empty room with the given secret by its next call: it deletes
  the room, or its participant enters it.
\<close>

definition cares_for :: "RoomCode \<Rightarrow> RoomSecret option \<Rightarrow> 'a prog \<Rightarrow> bool" where
  "cares_for code secret t \<longleftrightarrow>
     (\<exists>k. t = Call (CallRemoveIfEmpty code) k)
     \<or> (\<exists>p k. t = Call (CallUpdate code (join_updater p secret) no_captures) k)"

definition empty_room :: "store \<Rightarrow> RoomCode \<Rightarrow> RoomSecret option \<Rightarrow> bool" where
  "empty_room m code secret \<longleftrightarrow> (\<exists>room. m code = Some room \<and> IsEmpty room \<and> room_secret room = secret)"

text \<open>A call that leaves a new empty room behind is followed by one that takes care of it.\<close>

primrec tidy :: "'a prog \<Rightarrow> bool" where
  "tidy (Return x) = True"
| "tidy (Call c k) =
     ((\<forall>reply. tidy (k reply))
      \<and> (\<forall>m code secret. empty_room (snd (store_call c m)) code secret \<longrightarrow>
           empty_room m code secret \<or> cares_for code secret (k (fst (store_call c m)))))"
| "tidy (Codes k) = (\<forall>codes. tidy (k codes))"

lemma cares_for_bind: "cares_for code secret t \<Longrightarrow> cares_for code secret (bind_prog t f)"
  by (auto simp: cares_for_def)

lemma tidy_bind: "tidy p \<Longrightarrow> (\<And>x. tidy (f x)) \<Longrightarrow> tidy (bind_prog p f)"
proof (induction p)
  case (Call c k)
  then have "tidy (bind_prog (k reply) f)" for reply by auto
  with Call.prems(1) show ?case by (simp, meson cares_for_bind)
qed auto

lemma cared_for:
  assumes "cares_for code secret (Call c k)"
  shows "\<not> empty_room (snd (store_call c m)) code secret"
proof -
  consider "c = CallRemoveIfEmpty code" | p where "c = CallUpdate code (join_updater p secret) no_captures"
    using assms by (auto simp: cares_for_def)
  then show ?thesis
  proof cases
    case 1
    then show ?thesis by (cases "m code") (auto simp: empty_room_def)
  next
    case (2 p)
    show ?thesis
      unfolding 2 store_update_join empty_room_def
      by (cases "m code") (auto simp: IsEmpty_iff_member_ids admits_def member_ids_def)
  qed
qed

lemma tidy_join: "tidy (join_prog code p password)"
  unfolding join_prog_def tidy.simps store_update_join empty_room_def
  by (auto simp: IsEmpty_def split: option.splits if_splits)

lemma empty_room_upd: "empty_room (m(code \<mapsto> room)) code' secret \<Longrightarrow> code' = code \<or> empty_room m code' secret"
  by (auto simp: empty_room_def split: if_splits)

lemma empty_room_removed:
  "empty_room (snd (store_call (CallRemoveIfEmpty code) m)) code' secret \<Longrightarrow> empty_room m code' secret"
  by (cases "m code") (auto simp: empty_room_def split: if_splits)

lemma cares_for_remove: "cares_for code secret (Call (CallRemoveIfEmpty code) k)"
  by (simp add: cares_for_def)

lemma tidy_leave: "tidy (leave_prog code pid)"
  unfolding leave_prog_def
  by (auto simp: transact_leave cares_for_remove simp del: store_call.simps(4)
      split: RepoReply.splits option.splits if_splits dest: empty_room_upd empty_room_removed)

lemma tidy_leave_all: "tidy (leave_all_prog pid)"
proof -
  have "tidy (leave_rooms_prog pid codes)" for codes
    by (induction codes) (auto intro!: tidy_bind tidy_leave)
  then show ?thesis by (auto simp: leave_all_prog_def intro!: tidy_bind split: sum.splits)
qed

text \<open>Between the creation of a room and the entry of its creator, the creator cares for it.\<close>

lemma tidy_create_join:
  "tidy (bind_prog (create_prog password draws attempt) (\<lambda>res.
     case res of Err e \<Rightarrow> Return (Err e) | Ok room \<Rightarrow> join_prog (GetCode room) p password))"
proof (induction password draws attempt rule: create_prog.induct)
  case (1 password draws attempt)
  let ?room = "Room_new (GenerateRoomCode (draws attempt)) password"
  have join: "cares_for (GetCode ?room) (room_secret ?room) (join_prog (GetCode ?room) p password)"
    by (auto simp: cares_for_def join_prog_def Room_new_def)
  have add: "code = GetCode ?room \<and> secret = room_secret ?room" if "empty_room (m(GetCode ?room \<mapsto> ?room)) code secret"
    "\<not> empty_room m code secret" for m code secret
    using that by (auto simp: empty_room_def split: if_splits)
  show ?case
  proof (cases "attempt < max_attempts")
    case True
    with 1 have "tidy (bind_prog (create_prog password draws (Suc attempt)) (\<lambda>res.
        case res of Err e \<Rightarrow> Return (Err e) | Ok room \<Rightarrow> join_prog (GetCode room) p password))" by simp
    with True add join tidy_join show ?thesis
      by (auto simp: create_prog.simps [of password draws attempt] Let_def
          split: RepoReply.splits sum.splits AddRoomResult.splits if_splits)
  qed (simp add: create_prog.simps [of password draws attempt])
qed

lemma tidy_thread: "tidy (thread_of use)"
  by (cases use) (auto simp: create_join_prog_def intro!: tidy_bind tidy_join tidy_leave tidy_leave_all tidy_create_join)

lemma still_cared_for:
  assumes "\<exists>t \<in> set ts. cares_for code secret t" and "\<not> cares_for code secret (ts ! i)"
  shows "\<exists>t \<in> set (ts[i := u]). cares_for code secret t"
proof -
  obtain j where "j < length ts" "cares_for code secret (ts ! j)" using assms(1) by (metis in_set_conv_nth)
  moreover from this have "ts[i := u] ! j = ts ! j" using assms(2) by (cases "j = i") simp_all
  ultimately show ?thesis by (metis length_list_update nth_mem)
qed

context room_service begin

lemma interleaved_tidy:
  assumes run: "interleaved ops (map thread_of uses) r0 ts r" and "invar r0" and "no_empty_room (lookup r0)"
  shows "(\<forall>t \<in> set ts. tidy t) \<and> invar r
    \<and> (\<forall>code secret. empty_room (lookup r) code secret \<longrightarrow> (\<exists>t \<in> set ts. cares_for code secret t))"
  using run
proof (induction rule: interleaved.induct)
  case none
  show ?case using assms(2,3) by (auto simp: tidy_thread empty_room_def no_empty_room_def)
next
  case (call ts r i c k reply r')
  have r': "lookup r' = snd (store_call c (lookup r))" "reply = fst (store_call c (lookup r))" "invar r'"
    using call_refines [of r c] call.IH call.hyps(4) by auto
  have t: "tidy (Call c k)" using call.IH call.hyps(2,3) by (metis nth_mem)
  have "\<exists>t \<in> set (ts[i := k reply]). cares_for code secret t" if e: "empty_room (lookup r') code secret" for code secret
  proof (cases "empty_room (lookup r) code secret")
    case True
    moreover have "\<not> cares_for code secret (ts ! i)"
      using cared_for [of code secret c k "lookup r"] e r'(1) call.hyps(3) by auto
    ultimately show ?thesis using call.IH by (intro still_cared_for) auto
  next
    case False
    with t e r' have "cares_for code secret (k reply)" by auto
    then show ?thesis using call.hyps(2) by (auto intro: set_update_memI)
  qed
  moreover have "\<forall>t \<in> set (ts[i := k reply]). tidy t"
    using call.IH t by (auto dest!: set_update_subset_insert [THEN subsetD])
  ultimately show ?case using r'(3) by blast
next
  case (codes ts r i k)
  have t: "tidy (Codes k)" using codes.IH codes.hyps(2,3) by (metis nth_mem)
  have "\<exists>t \<in> set (ts[i := k (GetRoomCodes ops r)]). cares_for code secret t"
    if "empty_room (lookup r) code secret" for code secret
    using that codes.IH codes.hyps(3) by (intro still_cared_for) (auto simp: cares_for_def)
  moreover have "\<forall>t \<in> set (ts[i := k (GetRoomCodes ops r)]). tidy t"
    using codes.IH t by (auto dest!: set_update_subset_insert [THEN subsetD])
  ultimately show ?case using codes.IH by blast
qed

end

section \<open>All threads can finish\<close>

lemma interleaved_trans:
  assumes "interleaved ops ts0 r0 ts1 r1" and "interleaved ops ts1 r1 ts2 r2"
  shows "interleaved ops ts0 r0 ts2 r2"
  using assms(2,1) by (induction rule: interleaved.induct) (auto intro: interleaved.intros)

text \<open>Running one thread to its end, while the others wait.\<close>

lemma interleaved_alone:
  assumes "i < length ts" and "ts ! i = t"
  shows "interleaved ops ts r (ts[i := Return (fst (run_prog ops t r))]) (snd (run_prog ops t r))"
  using assms
proof (induction t arbitrary: ts r)
  case (Return x)
  then have "ts[i := Return x] = ts" by (metis list_update_id)
  then show ?case using interleaved.none [of ops ts r] by simp
next
  case (Call c k)
  let ?reply = "fst (repo_call ops c r)" and ?r = "snd (repo_call ops c r)"
  have "interleaved ops ts r (ts[i := k ?reply]) ?r"
    by (rule interleaved.call [OF interleaved.none Call.prems]) simp
  moreover have "interleaved ops (ts[i := k ?reply]) ?r ((ts[i := k ?reply])[i := Return (fst (run_prog ops (k ?reply) ?r))])
      (snd (run_prog ops (k ?reply) ?r))"
    by (rule Call.IH) (simp_all add: Call.prems)
  ultimately show ?case by (auto intro: interleaved_trans)
next
  case (Codes k)
  have "interleaved ops ts r (ts[i := k (GetRoomCodes ops r)]) r"
    by (rule interleaved.codes [OF interleaved.none Codes.prems])
  moreover have "interleaved ops (ts[i := k (GetRoomCodes ops r)]) r
      ((ts[i := k (GetRoomCodes ops r)])[i := Return (fst (run_prog ops (k (GetRoomCodes ops r)) r))])
      (snd (run_prog ops (k (GetRoomCodes ops r)) r))"
    by (rule Codes.IH) (simp_all add: Codes.prems)
  ultimately show ?case by (auto intro: interleaved_trans)
qed

lemma threads_can_finish: "\<exists>ts' r'. interleaved ops ts r ts' r' \<and> finished ts'"
proof -
  have "\<exists>ts' r'. interleaved ops ts r ts' r' \<and> length ts' = length ts \<and> (\<forall>i < n. \<exists>x. ts' ! i = Return x)"
    if "n \<le> length ts" for n
    using that
  proof (induction n)
    case 0
    then show ?case using interleaved.none by fastforce
  next
    case (Suc n)
    then obtain ts1 r1 where "interleaved ops ts r ts1 r1" "length ts1 = length ts" "\<forall>i < n. \<exists>x. ts1 ! i = Return x"
      by auto
    with Suc.prems interleaved_alone [of n ts1 "ts1 ! n" ops r1] show ?case
      by (intro exI [of _ "ts1[n := Return (fst (run_prog ops (ts1 ! n) r1))]"]
          exI [of _ "snd (run_prog ops (ts1 ! n) r1)"])
        (auto simp: nth_list_update less_Suc_eq intro: interleaved_trans)
  qed
  from this [of "length ts"] show ?thesis unfolding finished_def by (metis in_set_conv_nth le_refl)
qed

section \<open>Properties\<close>

text \<open>
  C18. No update is lost between threads: however the repository calls of any number of use
  cases are interleaved, a participant whose join was answered with success is in the room, and
  everybody who was in a room before is still there, unless some use case takes that very
  participant out; and every room stays filed under its code, without duplicate ids.
\<close>

theorem concurrent_joins_kept:
  assumes "InMemory_invar r0" and "interleaved (mem_ops ord) (map thread_of uses) r0 ts r"
  shows "(\<forall>i < length uses. \<forall>code p password joined. uses ! i = UseJoin code p password
        \<and> ts ! i = Return (Joining (Ok joined)) \<and> (\<forall>use \<in> set uses. \<not> leaves (GetId p) use)
        \<longrightarrow> in_store (GetId p) code (InMemory_lookup r))
    \<and> (\<forall>pid code. in_store pid code (InMemory_lookup r0) \<and> (\<forall>use \<in> set uses. \<not> leaves pid use)
        \<longrightarrow> in_store pid code (InMemory_lookup r))
    \<and> (store_wf (InMemory_lookup r0) \<longrightarrow> store_wf (InMemory_lookup r))"
proof (intro conjI allI impI)
  fix i code p password joined
  assume "i < length uses" and "uses ! i = UseJoin code p password
    \<and> ts ! i = Return (Joining (Ok joined)) \<and> (\<forall>use \<in> set uses. \<not> leaves (GetId p) use)"
  then show "in_store (GetId p) code (InMemory_lookup r)"
    using service.interleaved_join [OF assms(2,1), of i code p password] by (auto simp: join_state_def join_prog_def)
next
  fix pid code
  assume "in_store pid code (InMemory_lookup r0) \<and> (\<forall>use \<in> set uses. \<not> leaves pid use)"
  then show "in_store pid code (InMemory_lookup r)"
    using service.interleaved_members [OF assms(2,1)] by blast
next
  assume "store_wf (InMemory_lookup r0)"
  then show "store_wf (InMemory_lookup r)" by (rule service.interleaved_wf [OF assms(2,1)])
qed

definition demo_uses :: "UseCase list" where
  "demo_uses = [UseJoin ''000042'' \<lparr>GetId = ''p_2'', GetName = ''Bob''\<rparr> (Some ''s3cret''), UseLeave ''000042'' ''p_1'']"

lemma demo_interleaved:
  obtains joined ts r where "interleaved (mem_ops stored_order) (map thread_of demo_uses) demo_store ts r"
    "ts ! 0 = Return (Joining (Ok joined))"
proof -
  let ?p = "\<lparr>GetId = ''p_2'', GetName = ''Bob''\<rparr>" and ?ops = "mem_ops stored_order"
  let ?t = "thread_of (UseJoin ''000042'' ?p (Some ''s3cret''))"
  have "fst (RoomService_JoinRoom ?ops ''000042'' ?p (Some ''s3cret'') demo_store) =
      Ok (ParticipantJoinedRoom ''000042'' ?p [\<lparr>GetId = ''p_1'', GetName = ''Ada''\<rparr>, ?p])"
    unfolding service.JoinRoom_refines(1) [OF demo_store_invar]
    by (simp add: store_join_def InMemory_lookup_def demo_store_def demo_room_def member_ids_def admits_def)
  then obtain joined where "fst (run_prog ?ops ?t demo_store) = Joining (Ok joined)"
    by (simp add: run_bind run_join)
  with interleaved_alone [of 0 "map thread_of demo_uses" ?t ?ops demo_store] that show ?thesis
    by (simp add: demo_uses_def)
qed

theorem concurrent_joins_kept_witness:
  "\<exists>ts r. interleaved (mem_ops stored_order) (map thread_of demo_uses) demo_store ts r
     \<and> in_store ''p_2'' ''000042'' (InMemory_lookup r)"
proof -
  obtain joined ts r where run: "interleaved (mem_ops stored_order) (map thread_of demo_uses) demo_store ts r"
    "ts ! 0 = Return (Joining (Ok joined))"
    by (rule demo_interleaved)
  have "0 < length demo_uses" "demo_uses ! 0 = UseJoin ''000042'' \<lparr>GetId = ''p_2'', GetName = ''Bob''\<rparr> (Some ''s3cret'')"
    "\<forall>use \<in> set demo_uses. \<not> leaves ''p_2'' use"
    by (simp_all add: demo_uses_def leaves_def)
  with conjunct1 [OF concurrent_joins_kept [OF demo_store_invar run(1)], rule_format, of 0] run
  have "in_store ''p_2'' ''000042'' (InMemory_lookup r)" by simp
  with run(1) show ?thesis by blast
qed

text \<open>
  C19. No empty room is left behind by concurrent use cases: when all threads are done, however
  their calls were interleaved, no room without members is stored (although \<^verbatim>\<open>LeaveRoom\<close>
  empties a room and deletes it in two separate calls, and a new room is empty until its creator
  has joined); and from every intermediate state all threads can come to their end.
\<close>

theorem concurrent_no_empty_room:
  assumes "InMemory_invar r0" and "no_empty_room (InMemory_lookup r0)"
    and "interleaved (mem_ops ord) (map thread_of uses) r0 ts r"
  shows "(finished ts \<longrightarrow> no_empty_room (InMemory_lookup r))
    \<and> (\<exists>ts' r'. interleaved (mem_ops ord) ts r ts' r' \<and> finished ts')"
proof
  show "finished ts \<longrightarrow> no_empty_room (InMemory_lookup r)"
    using service.interleaved_tidy [OF assms(3,1,2)]
    by (fastforce simp: finished_def no_empty_room_def empty_room_def cares_for_def)
  show "\<exists>ts' r'. interleaved (mem_ops ord) ts r ts' r' \<and> finished ts'" by (rule threads_can_finish)
qed

theorem concurrent_no_empty_room_witness:
  "\<exists>ts r. interleaved (mem_ops reverse_order)
       (map thread_of (UseCreate \<lparr>GetId = ''p_1'', GetName = ''Ada''\<rparr> None (\<lambda>i. i) # demo_uses)) InMemory_new ts r
     \<and> finished ts \<and> no_empty_room (InMemory_lookup r)"
proof -
  let ?uses = "UseCreate \<lparr>GetId = ''p_1'', GetName = ''Ada''\<rparr> None (\<lambda>i. i) # demo_uses"
  have new: "InMemory_invar InMemory_new" "no_empty_room (InMemory_lookup InMemory_new)"
    by (simp_all add: no_empty_room_def)
  obtain ts r where run: "interleaved (mem_ops reverse_order) (map thread_of ?uses) InMemory_new ts r" "finished ts"
    using threads_can_finish [of "mem_ops reverse_order" "map thread_of ?uses" InMemory_new] by (elim exE conjE)
  with concurrent_no_empty_room [OF new run(1)] show ?thesis by blast
qed

text \<open>
  What the interleaving does not guarantee: a room can vanish between its creation and the entry of
  its creator, when another client enters it (by its code) and leaves it meanwhile. The creator
  is then told that the room was not found. The server itself runs all handlers in one thread,
  where this cannot happen.
\<close>

lemma created_room_can_vanish:
  "\<exists>ts r. interleaved (mem_ops stored_order)
       (map thread_of [UseCreate \<lparr>GetId = ''p_1'', GetName = ''Ada''\<rparr> None (\<lambda>i. 7),
          UseJoin (GenerateRoomCode 7) \<lparr>GetId = ''p_2'', GetName = ''Bob''\<rparr> None,
          UseLeave (GenerateRoomCode 7) ''p_2'']) InMemory_new ts r
     \<and> ts ! 0 = Return (Joining (Err BuildRoomNotFoundError))"
proof -
  let ?ops = "mem_ops stored_order" and ?code = "GenerateRoomCode 7"
  let ?p = "\<lparr>GetId = ''p_1'', GetName = ''Ada''\<rparr>" and ?q = "\<lparr>GetId = ''p_2'', GetName = ''Bob''\<rparr>"
  let ?create = "thread_of (UseCreate ?p None (\<lambda>i. 7))" and ?join = "thread_of (UseJoin ?code ?q None)"
    and ?leave = "thread_of (UseLeave ?code ''p_2'')" and ?enter = "thread_of (UseJoin ?code ?p None)"
  let ?ts = "[?create, ?join, ?leave]" and ?r1 = "\<lparr>rooms = [(?code, Room_new ?code None)]\<rparr>"
  obtain k where k: "?create = Call (CallAdd (Room_new ?code None)) k" "k (AddReply (Inr Added)) = ?enter"
    by (simp add: create_join_prog_def create_prog.simps [of None "\<lambda>i. 7" 0] max_attempts_def Let_def Room_new_def)
  have "repo_call ?ops (CallAdd (Room_new ?code None)) InMemory_new = (AddReply (Inr Added), ?r1)"
    by (simp add: InMemory_Add_def InMemory_new_def umap_emplace_def Room_new_def)
  from interleaved.call [OF interleaved.none [of ?ops ?ts InMemory_new], of 0, OF _ _ this, of k] k
  have s1: "interleaved ?ops ?ts InMemory_new [?enter, ?join, ?leave] ?r1" by simp
  have r1: "InMemory_invar ?r1" "InMemory_lookup ?r1 = [?code \<mapsto> Room_new ?code None]"
    by (auto simp: InMemory_invar_def umap_wf_def InMemory_lookup_def)
  obtain x r2 where x: "run_prog ?ops ?join ?r1 = (x, r2)" by fastforce
  then have s2: "interleaved ?ops [?enter, ?join, ?leave] ?r1 [?enter, Return x, ?leave] r2"
    using interleaved_alone [of 1 "[?enter, ?join, ?leave]" ?join ?ops ?r1] by simp
  have r2: "InMemory_invar r2" "InMemory_lookup r2 = [?code \<mapsto> (Room_new ?code None)\<lparr>GetParticipants := [?q]\<rparr>]"
  proof -
    have eq: "r2 = snd (RoomService_JoinRoom ?ops ?code ?q None ?r1)" using x by (auto simp: run_bind run_join)
    show "InMemory_invar r2" unfolding eq by (rule service.JoinRoom_refines(3) [OF r1(1)])
    show "InMemory_lookup r2 = [?code \<mapsto> (Room_new ?code None)\<lparr>GetParticipants := [?q]\<rparr>]"
      unfolding eq service.JoinRoom_refines(2) [OF r1(1)] r1(2)
      by (simp add: store_join_def admits_def Room_new_def member_ids_def)
  qed
  obtain y r3 where y: "run_prog ?ops ?leave r2 = (y, r3)" by fastforce
  then have s3: "interleaved ?ops [?enter, Return x, ?leave] r2 [?enter, Return x, Return y] r3"
    using interleaved_alone [of 2 "[?enter, Return x, ?leave]" ?leave ?ops r2] by simp
  have r3: "InMemory_invar r3" "InMemory_lookup r3 = Map.empty"
  proof -
    have eq: "r3 = snd (RoomService_LeaveRoom ?ops ?code ''p_2'' r2)" using y by (auto simp: run_bind run_leave)
    show "InMemory_invar r3" unfolding eq by (rule service.LeaveRoom_refines(3) [OF r2(1)])
    show "InMemory_lookup r3 = Map.empty"
      unfolding eq service.LeaveRoom_refines(2) [OF r2(1)] r2(2)
      by (simp add: store_leave_def without_def IsEmpty_def Room_new_def member_ids_def)
  qed
  have "fst (run_prog ?ops ?enter r3) = Joining (Err BuildRoomNotFoundError)"
    using service.JoinRoom_refines(1) [OF r3(1), of stored_order ?code ?p None]
    by (simp add: run_bind run_join r3(2) store_join_def)
  then have "interleaved ?ops [?enter, Return x, Return y] r3
      [Return (Joining (Err BuildRoomNotFoundError)), Return x, Return y] (snd (run_prog ?ops ?enter r3))"
    using interleaved_alone [of 0 "[?enter, Return x, Return y]" ?enter ?ops r3] by simp
  from interleaved_trans [OF s1 interleaved_trans [OF s2 interleaved_trans [OF s3 this]]]
  have "interleaved ?ops ?ts InMemory_new [Return (Joining (Err BuildRoomNotFoundError)), Return x, Return y]
      (snd (run_prog ?ops ?enter r3))" .
  then show ?thesis
    by (intro exI [of _ "[Return (Joining (Err BuildRoomNotFoundError)), Return x, Return y]"]
        exI [of _ "snd (run_prog ?ops ?enter r3)"]) (simp del: thread_of.simps)
qed

end
