(* ===== verification/Spec2Isabelle.thy ===== *)
theory Spec2Isabelle
  imports Delivery Stale Threads
begin

text \<open>
  BuzzWeb is a signaling server for WebRTC: clients connect over WebSocket (plain or TLS), create,
  join and leave rooms identified by six-digit codes, and exchange offers, answers and ICE
  candidates with other members of a room. This development models the whole server program of
  the repository, from \<^verbatim>\<open>main\<close> to the write queue of a session, and proves what makes it
  correct. Paths below are relative to src/ of the repository (headers in include/buzzweb/).

  \<^bold>\<open>The parts and how they interact.\<close> A \<^verbatim>\<open>Listener\<close> accepts connections and makes one
  \<^verbatim>\<open>Session\<close> for each; the session enters the \<^verbatim>\<open>SessionRegistry\<close> when its WebSocket
  handshake is done. A text that a session reads is decoded by the \<^verbatim>\<open>ProtocolCodec\<close> into a typed
  request, the \<^verbatim>\<open>ControlDispatcher\<close> routes it to the use cases of the \<^verbatim>\<open>RoomService\<close>,
  which work on a \<^verbatim>\<open>RoomRepository\<close> of \<^verbatim>\<open>Room\<close>s, and the result comes back through a
  callback that answers the client, relays signaling messages and delivers events to the other
  members through the registry. When a connection ends, the session takes its participant out of
  the registry and out of every room.

  \<^bold>\<open>Theories, in the order of their imports.\<close>

  \<^item> \<open>Base\<close>: exceptions and the \<^verbatim>\<open>Result\<close> template (app/Result.hpp), hash maps as
    association lists with distinct keys, number formatting of streams, fact collections.
  \<^item> \<open>Rooms\<close>: \<^verbatim>\<open>Participant\<close> and \<^verbatim>\<open>Room\<close> (domain/Participant.cpp, domain/Room.cpp).
  \<^item> \<open>Repository\<close>: the abstract class \<^verbatim>\<open>RoomRepository\<close> as a record of operations, its
    contract as the locale \<open>room_repository\<close>, and domain/InMemoryRoomRepository.cpp, which
    interprets it.
  \<^item> \<open>Service\<close>: the use cases of app/RoomService.cpp with their catch blocks, refining
    specifications on the map of rooms (\<open>store_join\<close>, \<open>store_leave\<close>, \<open>store_create\<close>,
    \<open>store_leave_all\<close>); locale \<open>room_service\<close>.
  \<^item> \<open>Dispatcher\<close>: the message types and \<^verbatim>\<open>Dispatch\<close>, \<^verbatim>\<open>HandleParticipantDisconnected\<close> of
    app/ControlDispatcher.cpp, refining \<open>store_dispatch\<close>.
  \<^item> \<open>Json\<close>: the interface of the JSON library, a record of operations with the laws of the
    locale \<open>nlohmann_json\<close>; \<open>JsonText\<close>: a JSON reader and writer that interprets it.
  \<^item> \<open>Codec\<close>: \<^verbatim>\<open>DecodeRequest\<close> and the four encoders of app/ProtocolCodec.cpp.
  \<^item> \<open>Registry\<close>: net/SessionRegistry.cpp, with the locale \<open>session_registry\<close>.
  \<^item> \<open>Session\<close>: net/Session.hpp and net/Session.cpp: handling of messages, delivery of events,
    write queue, life cycle of plain and TLS sessions.
  \<^item> \<open>Runtime\<close>: net/Listener.cpp and the event loop of net/Server.cpp as a state machine:
    \<open>handle_event\<close> is one handler that \<^verbatim>\<open>io_context::run\<close> executes, \<open>reachable\<close> and
    \<open>run_events\<close> are runs.
  \<^item> \<open>Guarantees\<close>: the locale \<open>buzzweb_server\<close>, which joins the contracts of the room
    service and of the JSON library, with the invariants of the running server.
  \<^item> \<open>EndToEnd\<close>: the life of each kind of message; \<open>Delivery\<close>: progress of the event loop.
  \<^item> \<open>Config\<close>: util/Env.cpp, util/Config.cpp; \<open>Logging\<close>: \<^verbatim>\<open>ConfigureLogging\<close> of
    main.cpp; \<open>Startup\<close>: the constructor of \<^verbatim>\<open>Server\<close> and \<^verbatim>\<open>main\<close>.
  \<^item> \<open>Lifetime\<close>: who holds a pointer to a session object, and when it is destroyed.
  \<^item> \<open>Stale\<close>: what happens to a message that is read after its session has ended.
  \<^item> \<open>Threads\<close>: the use cases of app/RoomService.cpp as programs of atomic repository calls, and
    any interleaving of several of them (\<open>interleaved\<close>); a room service that is used by several
    threads, which docs/ARCHITECTURE.md provides for.

  \<^bold>\<open>State.\<close> Rooms, participants, the repository, listener and configuration are records with
  the members of the classes. A session object is a record at an address; \<open>Net\<close> holds all of them
  with the registry and the queue of posted tasks; \<open>World\<close> adds listener and repository. Random
  draws are arguments (\<open>draws i\<close> is the number drawn in the i-th attempt, \<open>draw\<close> a 64-bit
  word). Operations that may throw return \<open>exn + 'a\<close>; \<open>exn option\<close> beside a state is an
  exception that leaves an operation after it changed the state.

  \<^bold>\<open>What the lemmas show.\<close>

  \<^item> Components: rooms admit exactly whom they should and never hold an id twice; the in-memory
    repository refines a map, and its update is a transaction; every use case and every branch of
    the dispatcher implements its specification, errors included, and keeps the invariants; the
    registry finds the session added last; disconnecting does not depend on hash order.
  \<^item> Protocol: requests round-trip, decoding has no other outcome than a request or one of the
    documented errors, a client can neither act for nor pose as another, and everything the server
    writes can be read back with the intended fields.
  \<^item> Messages, end to end: for create, join, leave and signaling, the exact list of texts posted and
    to whom; every message is answered exactly once, with the request id that it carries, also when the
    repository throws; when a session ends, everything it left behind
    is cleaned up and exactly the right members are told.
  \<^item> Runs: no event makes a handler throw; sessions have one operation of a kind at a time, as the
    WebSocket library demands; messages are never lost or reordered, the task queue always
    drains and what was sent is written; the registry is exact and members of rooms are connected;
    with TLS, no client is heard before its handshake; the server never stops listening to a
    registered session or for new connections; session objects live exactly as long as they are
    in use, and are not used afterwards.
  \<^item> Threads: the programs restate the use cases call by call; run alone they are the functions of
    \<open>Service\<close> (lemmas \<open>run_join\<close> to \<open>run_create_join\<close>). In every interleaving no successful join
    and no membership is lost, rooms stay well-formed, and no empty room is left at the end.
    A created room can vanish before its creator joins it (\<open>created_room_can_vanish\<close>), which
    the one thread of the server rules out.
  \<^item> Start: when the program serves, what it logs when it does not, and how the port is read.
  \<^item> Flaws: a message that is read after a failed write or \<^verbatim>\<open>Close\<close> has ended its session leaves
    a member that is never removed (\<open>late_message_leaves_stale_member\<close>); \<^verbatim>\<open>LeaveRoom\<close> reports success when the repository failed
    (\<open>LeaveRoom_reports_lost_commit\<close>); a port above 65535 silently becomes another one
    (\<open>LoadConfig_port\<close>).

  \<^bold>\<open>Bounds and fuel.\<close> \<^verbatim>\<open>CreateRoom\<close> makes at most a hundred attempts, as in the source.
  The JSON reader of \<open>JsonText\<close> recurses on fuel: the length of the text, which the round-trip
  proofs show to be enough for everything the writer produces. All other functions terminate by
  their structure. The event loop is a relation on states, or a function on a finite list of
  events.

  \<^bold>\<open>What is assumed.\<close> The libraries (Boost.Asio, Boost.Beast, OpenSSL, nlohmann/json) and the
  operating system are parameters. An asynchronous operation completes at most once, at any
  time, with any outcome; handlers run one at a time, because the one thread that calls
  \<^verbatim>\<open>io_context::run\<close> runs them, and posted tasks run in the order in which they were posted.
  Methods that hold a mutex for their whole body are single steps, in theory \<open>Threads\<close> too. The JSON library obeys the laws
  of \<open>nlohmann_json\<close>. That ids are distinct is a hypothesis where it is needed: they are random
  64-bit numbers, which nothing compares.

  \<^bold>\<open>Not modelled.\<close> Log records of the running server; the options of the WebSocket stream (timeouts, text mode); the
  bytes of TLS and WebSocket frames; exhaustion of memory, except as an exception of the repository;
  the reuse of addresses of destroyed sessions; the demo client, scripts and build files.
\<close>

section \<open>Properties of the whole server\<close>

text \<open>
  C7. No client can bring the server down: in every reachable state, for every event (any text
  or binary message, valid or not, any failure of a read, write, handshake or accept, any task),
  the handler ends without an exception, and the repository keeps its invariants: one entry per
  code, rooms with distinct members, no empty room, only valid UTF-8 in it.
\<close>

theorem no_event_throws:
  assumes J: "nlohmann_json J utf8 ok elements bool_of"
    and run: "reachable (mem_ops ord) J env (Server_Run l InMemory_new) w"
    and ev: "handle_event (mem_ops ord) J e w = Some (out, w')"
  shows "out = None \<and> memory_ok utf8 (repository w')"
proof -
  have "out = None \<and> buzzweb_server.world_ok InMemory_lookup InMemory_invar utf8 w'"
    by (rule buzzweb_server.event_quiet [OF memory_server [OF J] reachable_memory(1) [OF J run] ev])
  then show ?thesis by (simp add: world_ok_memory [OF J])
qed

theorem no_event_throws_witness:
  "\<exists>w out w'. handle_event (mem_ops stored_order) text_api (ReadDone 0 (ReadMessage True ''{'') (\<lambda>i. i)) w
       = Some (out, w') \<and> out = None"
proof -
  obtain w where w: "run_events (mem_ops stored_order) text_api demo_connect demo_world = Some w"
    "pending (heap (net w) 0) = [AsyncRead]" "\<not> stopped w"
    using demo_connected by blast
  have run: "reachable (mem_ops stored_order) text_api any_event demo_world w"
    by (rule run_events_reachable [OF reachable.start w(1)])
  obtain out w' where ev: "handle_event (mem_ops stored_order) text_api
      (ReadDone 0 (ReadMessage True ''{'') (\<lambda>i. i)) w = Some (out, w')"
    using read_event [of w 0] w(2,3) by (metis list.set_intros(1) prod_cases3)
  show ?thesis
    using no_event_throws [OF text_json.nlohmann_json_axioms run [unfolded demo_world_def] ev] ev by blast
qed

text \<open>
  C9. The registry is exact: as long as no 64-bit id has been drawn twice, in every reachable
  state a participant id is found in the registry exactly when a session with that id is
  registered, and it is that session.
\<close>

theorem registry_exact:
  assumes "reachable ops J env (Server_Run l r) w" and "distinct_ids (net w)"
  shows "SessionRegistry_Find pid (registry (net w)) = Some s \<longleftrightarrow>
    registered (heap (net w) s) \<and> participant_id (heap (net w) s) = pid"
  using reachable_mirror [OF assms] by (simp only: mirror_def)

theorem registry_exact_witness:
  "\<exists>w. reachable (mem_ops stored_order) text_api any_event demo_world w
     \<and> SessionRegistry_Find (participant_id (heap (net w) 0)) (registry (net w)) = Some 0"
proof -
  obtain w where w: "run_events (mem_ops stored_order) text_api demo_connect demo_world = Some w"
    "registered (heap (net w) 0)" "next_address (net w) = 1"
    using demo_connected by blast
  have run: "reachable (mem_ops stored_order) text_api any_event demo_world w"
    by (rule run_events_reachable [OF reachable.start w(1)])
  have "distinct_ids (net w)" by (simp add: distinct_ids_def w(3))
  then show ?thesis
    using registry_exact [OF run [unfolded demo_world_def], of "participant_id (heap (net w) 0)" 0] w(2) run
    by blast
qed

lemma reachable_members:
  assumes J: "nlohmann_json J utf8 ok elements bool_of"
    and run: "reachable (mem_ops ord) J reads_while_registered (Server_Run l InMemory_new) w"
  shows "members_live (InMemory_lookup (repository w)) (net w)"
  using run
proof (induction rule: reachable.induct)
  case start
  show ?case by (simp add: members_live_def Server_Run_def in_store_def)
next
  case (event w e w')
  show ?case
    by (rule buzzweb_server.event_members [OF memory_server [OF J] reachable_memory [OF J event.hyps(1)] event.IH
          event.hyps(2,3)])
qed

text \<open>
  C8. Rooms contain only connected people: as long as no message is read from a session after it
  was taken out of the registry, in every reachable state each member of each room has a registered
  session; when the ids are distinct, the registry finds it, so events and signaling reach it.
\<close>

theorem members_are_connected:
  assumes "nlohmann_json J utf8 ok elements bool_of"
    and "reachable (mem_ops ord) J reads_while_registered (Server_Run l InMemory_new) w"
    and "in_store pid code (InMemory_lookup (repository w))"
  shows "(\<exists>s. registered (heap (net w) s) \<and> participant_id (heap (net w) s) = pid)
    \<and> (distinct_ids (net w) \<longrightarrow> SessionRegistry_Find pid (registry (net w)) \<noteq> None)"
proof -
  have live: "\<exists>s. registered (heap (net w) s) \<and> participant_id (heap (net w) s) = pid"
    using reachable_members [OF assms(1,2)] assms(3) unfolding members_live_def by blast
  then show ?thesis
    using reachable_mirror [OF assms(2)] unfolding mirror_def by blast
qed

lemma demo_connected_reads:
  obtains w where "reachable (mem_ops stored_order) text_api reads_while_registered demo_world w"
    "pending (heap (net w) 0) = [AsyncRead]" "registered (heap (net w) 0)" "\<not> stopped w"
    "repository w = InMemory_new" "participant_id (heap (net w) 0) = GenerateParticipantId 7"
proof -
  obtain w where w: "run_events (mem_ops stored_order) text_api demo_connect demo_world = Some w"
    "pending (heap (net w) 0) = [AsyncRead]" "registered (heap (net w) 0)" "\<not> stopped w"
    "repository w = InMemory_new" "participant_id (heap (net w) 0) = GenerateParticipantId 7"
    using demo_connected by blast
  then obtain w1 where "handle_event (mem_ops stored_order) text_api (TcpAccepted False 7) demo_world = Some (None, w1)"
    "handle_event (mem_ops stored_order) text_api (AcceptDone 0 False) w1 = Some (None, w)"
    by (auto simp: demo_connect_def split: option.splits prod.splits)
  then have "reachable (mem_ops stored_order) text_api reads_while_registered demo_world w"
    by (intro reachable.event [OF reachable.event [OF reachable.start]]) (simp_all add: reads_while_registered_def)
  with w that show ?thesis by blast
qed

theorem members_are_connected_witness:
  "\<exists>w :: InMemoryRoomRepository World. in_store (GenerateParticipantId 7) (GenerateRoomCode 0) (InMemory_lookup (repository w))
     \<and> (\<exists>s. registered (heap (net w) s) \<and> participant_id (heap (net w) s) = GenerateParticipantId 7)"
proof -
  obtain w where w: "reachable (mem_ops stored_order) text_api reads_while_registered demo_world w"
    "pending (heap (net w) 0) = [AsyncRead]" "registered (heap (net w) 0)" "\<not> stopped w"
    "repository w = InMemory_new" "participant_id (heap (net w) 0) = GenerateParticipantId 7"
    using demo_connected_reads .
  have "memory_ok valid_utf8 (repository w)" "ascii (participant_id (heap (net w) 0))"
    by (simp_all add: w memory_ok_new ascii_generated)
  then obtain w' where w': "handle_event (mem_ops stored_order) text_api
      (ReadDone 0 (ReadMessage True demo_create_text) (\<lambda>i. i)) w = Some (None, w')"
    "in_store (GenerateParticipantId 7) (GenerateRoomCode 0) (InMemory_lookup (repository w'))"
    using demo_created [of w 0 stored_order] w by auto
  have "reads_while_registered (ReadDone 0 (ReadMessage True demo_create_text) (\<lambda>i. i)) w"
    using w(3) by (simp add: reads_while_registered_def)
  from reachable.event [OF w(1) this w'(1)]
  have "reachable (mem_ops stored_order) text_api reads_while_registered demo_world w'" .
  from members_are_connected [OF text_json.nlohmann_json_axioms this [unfolded demo_world_def] w'(2)] w'(2)
  show ?thesis by blast
qed

end
